theory Spec2Isabelle
  imports Main
begin

section \<open>Values and entities\<close>

text \<open>
  The exceptions raised by the two managers (\<^verbatim>\<open>taipy.core.exceptions.scenario\<close>), together
  with the built-in Python exceptions that the modelled statements can raise:
  \<^verbatim>\<open>AttributeError\<close> (attribute access on \<^verbatim>\<open>None\<close>), \<^verbatim>\<open>OverflowError\<close> (date arithmetic
  leaving the range of \<^verbatim>\<open>datetime\<close>) and \<^verbatim>\<open>ValueError\<close> (invalid fields given to
  \<^verbatim>\<open>replace\<close>).
\<close>

datatype error =
    DeletingMasterScenario
  | DifferentScenarioConfigs
  | DoesNotBelongToACycle
  | InsufficientScenarioToCompare
  | NonExistingComparator
  | NonExistingScenario string
  | NonExistingScenarioConfig string
  | UnauthorizedTagError
  | AttributeError
  | OverflowError
  | ValueError

text \<open>
  Python's \<^verbatim>\<open>date\<close>, \<^verbatim>\<open>time\<close> and \<^verbatim>\<open>datetime\<close>. A \<^verbatim>\<open>datetime\<close> is a date and a time of
  day: \<^verbatim>\<open>dt.date()\<close> is \<open>date_of dt\<close> and \<^verbatim>\<open>datetime.combine(d, t)\<close> builds the record.
\<close>

record date =
  year :: int
  month :: int
  day :: int

record time =
  hour :: int
  minute :: int
  second :: int
  microsecond :: int

record datetime =
  date_of :: date
  time_of :: time

text \<open>
  Modelled from the spec: the enumeration \<^verbatim>\<open>taipy.core.common.frequency.Frequency\<close> is not
  among the sources; the spec (section 3) lists its members DAILY, WEEKLY, MONTHLY, YEARLY.
\<close>

datatype frequency = DAILY | WEEKLY | MONTHLY | YEARLY

text \<open>
  Modelled from the spec: the entity class \<^verbatim>\<open>Cycle\<close> is not among the sources. The spec
  (section 3) gives it an identity, a frequency, a creation date, start and end dates and
  a property mapping that always holds a \<^verbatim>\<open>display_name\<close>; the constructor call in
  \<^verbatim>\<open>_CycleManager._create\<close> adds the optional \<^verbatim>\<open>name\<close>. Two cycles are the same cycle when
  their identities agree.
\<close>

record cycle =
  cycle_id :: string
  cycle_frequency :: frequency
  cycle_properties :: "(string \<times> string) list"
  cycle_creation_date :: datetime
  start_date :: datetime
  end_date :: datetime
  cycle_name :: "string option"

definition cycle_eq :: "cycle \<Rightarrow> cycle \<Rightarrow> bool" where
  "cycle_eq c1 c2 = (cycle_id c1 = cycle_id c2)"

text \<open>
  Modelled from the spec: the entity class \<^verbatim>\<open>Pipeline\<close> is external. The managers read its
  \<^verbatim>\<open>id\<close>, its \<^verbatim>\<open>parent_id\<close> (which may be \<^verbatim>\<open>None\<close>) and its \<^verbatim>\<open>config_id\<close>.
\<close>

record pipeline =
  pipeline_id :: string
  parent_id :: "string option"
  pipeline_config_id :: string

text \<open>
  The property mapping of a scenario and of its configuration. The managers read the key
  \<^verbatim>\<open>authorized_tags\<close> (a set of tag strings, possibly absent) and write the key
  \<^verbatim>\<open>display_name\<close>; every other entry is carried along unchanged.
\<close>

record properties =
  authorized_tags :: "string set option"
  display_name :: "string option"
  other_properties :: "(string \<times> string) list"

text \<open>
  Modelled from the spec: the entity class \<^verbatim>\<open>Scenario\<close> is not among the sources. Its
  fields are those of the spec (section 3) and of the constructor call in
  \<^verbatim>\<open>_ScenarioManager._create\<close>; \<^verbatim>\<open>pipelines\<close> is the dictionary from pipeline configuration
  id to pipeline, in insertion order; \<open>is_master\<close> is the attribute \<^verbatim>\<open>_master_scenario\<close>.
\<close>

record scenario =
  scenario_id :: string
  config_id :: string
  pipelines :: "(string \<times> pipeline) list"
  scenario_properties :: properties
  creation_date :: "datetime option"
  is_master :: bool
  cycle :: "cycle option"
  tags :: "string set"
  subscribers :: "string list"

text \<open>
  Modelled from the spec: the methods of \<^verbatim>\<open>Scenario\<close> that the manager calls. \<^verbatim>\<open>has_tag\<close>
  tests membership in the tag set, \<^verbatim>\<open>_add_tag\<close> adds a tag, \<^verbatim>\<open>_remove_tag\<close> (and the public
  \<^verbatim>\<open>remove_tag\<close>) removes it; \<^verbatim>\<open>add_subscriber\<close> appends a callback to the subscriber
  sequence and \<^verbatim>\<open>remove_subscriber\<close> removes it.
\<close>

definition has_tag :: "scenario \<Rightarrow> string \<Rightarrow> bool" where
  "has_tag s t = (t \<in> tags s)"

definition add_tag :: "scenario \<Rightarrow> string \<Rightarrow> scenario" where
  "add_tag s t = s\<lparr>tags := insert t (tags s)\<rparr>"

definition remove_tag :: "scenario \<Rightarrow> string \<Rightarrow> scenario" where
  "remove_tag s t = s\<lparr>tags := tags s - {t}\<rparr>"



section \<open>The persisted state\<close>

text \<open>
  The state the managers work on: the content of the scenario repository and of the cycle
  repository, each in the order in which the repository enumerates its entities, and the
  calls issued so far to \<^verbatim>\<open>_PipelineManager._hard_delete(pipeline_id, scenario_id)\<close>, oldest
  first. The Pipeline Manager is an external collaborator; what it does with a call is not
  part of this development.
\<close>

record state =
  scenarios :: "scenario list"
  cycles :: "cycle list"
  pipeline_hard_deletes :: "(string \<times> string) list"

definition init_state :: state where
  "init_state = \<lparr>scenarios = [], cycles = [], pipeline_hard_deletes = []\<rparr>"

text \<open>
  Modelled from the spec: the generic manager \<^verbatim>\<open>_Manager\<close> and the repositories are not among
  the sources. The spec (section 6) gives the persistence layer \<^verbatim>\<open>get(id)\<close>, \<^verbatim>\<open>set(entity)\<close>
  and \<^verbatim>\<open>delete(id)\<close> per entity type: \<open>get_scenario\<close> returns the entity stored under an
  id (\<^verbatim>\<open>None\<close> when there is none, as the test in \<^verbatim>\<open>_submit\<close> expects), \<open>set_scenario\<close>
  stores an entity under its id, replacing the one stored there, and \<open>delete_scenario\<close>
  removes it.
\<close>

definition get_all :: "state \<Rightarrow> scenario list" where
  "get_all st = scenarios st"

definition get_scenario :: "string \<Rightarrow> state \<Rightarrow> scenario option" where
  "get_scenario sid st = find (\<lambda>s. scenario_id s = sid) (scenarios st)"

fun store :: "scenario \<Rightarrow> scenario list \<Rightarrow> scenario list" where
  "store s [] = [s]"
| "store s (x # xs) = (if scenario_id x = scenario_id s then s # xs else x # store s xs)"

definition set_scenario :: "scenario \<Rightarrow> state \<Rightarrow> state" where
  "set_scenario s st = st\<lparr>scenarios := store s (scenarios st)\<rparr>"

definition delete_scenario :: "string \<Rightarrow> state \<Rightarrow> state" where
  "delete_scenario sid st = st\<lparr>scenarios := filter (\<lambda>s. scenario_id s \<noteq> sid) (scenarios st)\<rparr>"

section \<open>The Scenario Manager\<close>

subsection \<open>Queries\<close>

text \<open>
  \<^verbatim>\<open>_get_all_by_cycle\<close> keeps the scenarios that have a cycle equal to the given one (the
  test \<^verbatim>\<open>scenario.cycle and scenario.cycle == cycle\<close> is \<open>in_cycle\<close>);
  \<^verbatim>\<open>_get_master\<close> and \<^verbatim>\<open>_get_by_tag\<close> return the first scenario of that list with the flag,
  respectively the tag, and \<^verbatim>\<open>None\<close> when there is none.
\<close>

definition in_cycle :: "cycle \<Rightarrow> scenario \<Rightarrow> bool" where
  "in_cycle c s = (case cycle s of None \<Rightarrow> False | Some c' \<Rightarrow> cycle_eq c' c)"

definition get_all_by_cycle :: "cycle \<Rightarrow> state \<Rightarrow> scenario list" where
  "get_all_by_cycle c st = filter (in_cycle c) (get_all st)"

definition get_master :: "cycle \<Rightarrow> state \<Rightarrow> scenario option" where
  "get_master c st = find is_master (get_all_by_cycle c st)"

definition get_by_tag :: "cycle \<Rightarrow> string \<Rightarrow> state \<Rightarrow> scenario option" where
  "get_by_tag c t st = find (\<lambda>s. has_tag s t) (get_all_by_cycle c st)"

definition get_all_by_tag :: "string \<Rightarrow> state \<Rightarrow> scenario list" where
  "get_all_by_tag t st = filter (\<lambda>s. has_tag s t) (get_all st)"

definition get_all_masters :: "state \<Rightarrow> scenario list" where
  "get_all_masters st = filter is_master (get_all st)"

subsection \<open>Master election, tagging, subscription\<close>

text \<open>
  Every operation returns its outcome (\<open>Inl\<close> the exception raised) together with the
  state at the moment it returns or raises.
\<close>

definition set_master :: "scenario \<Rightarrow> state \<Rightarrow> (error + unit) \<times> state" where
  "set_master s st =
     (case cycle s of
        Some c \<Rightarrow>
          (let st1 = (case get_master c st of
                        Some master_scenario \<Rightarrow>
                          set_scenario (master_scenario\<lparr>is_master := False\<rparr>) st
                      | None \<Rightarrow> st)
           in (Inr (), set_scenario (s\<lparr>is_master := True\<rparr>) st1))
      | None \<Rightarrow> (Inl DoesNotBelongToACycle, st))"

definition tag :: "scenario \<Rightarrow> string \<Rightarrow> state \<Rightarrow> (error + unit) \<times> state" where
  "tag s t st =
     (let tgs = (case authorized_tags (scenario_properties s) of Some a \<Rightarrow> a | None \<Rightarrow> {})
      in if tgs \<noteq> {} \<and> t \<notin> tgs then (Inl UnauthorizedTagError, st)
         else
           (let st1 = (case cycle s of
                         Some c \<Rightarrow>
                           (case get_by_tag c t st of
                              Some old_tagged_scenario \<Rightarrow>
                                set_scenario (remove_tag old_tagged_scenario t) st
                            | None \<Rightarrow> st)
                       | None \<Rightarrow> st)
            in (Inr (), set_scenario (add_tag s t) st1)))"






subsection \<open>Deletion\<close>

text \<open>
  Both deletions read the scenario from the repository; on \<^verbatim>\<open>None\<close> the attribute access
  \<^verbatim>\<open>.is_master\<close> raises \<^verbatim>\<open>AttributeError\<close>. The hard deletion walks the scenario's pipelines
  in dictionary order and issues \<^verbatim>\<open>_PipelineManager._hard_delete(pipeline.id, scenario.id)\<close>
  for those that pass the test of the source.
\<close>

definition delete :: "string \<Rightarrow> state \<Rightarrow> (error + unit) \<times> state" where
  "delete sid st =
     (case get_scenario sid st of
        None \<Rightarrow> (Inl AttributeError, st)
      | Some s \<Rightarrow>
          if is_master s then (Inl DeletingMasterScenario, st)
          else (Inr (), delete_scenario sid st))"

definition pipeline_hard_delete :: "string \<Rightarrow> string \<Rightarrow> state \<Rightarrow> state" where
  "pipeline_hard_delete pid sid st =
     st\<lparr>pipeline_hard_deletes := pipeline_hard_deletes st @ [(pid, sid)]\<rparr>"

definition cascade :: "scenario \<Rightarrow> pipeline \<Rightarrow> state \<Rightarrow> state" where
  "cascade s p st =
     (if parent_id p = Some (scenario_id s) \<or> parent_id p = Some (pipeline_id p)
      then pipeline_hard_delete (pipeline_id p) (scenario_id s) st
      else st)"

definition hard_delete :: "string \<Rightarrow> state \<Rightarrow> (error + unit) \<times> state" where
  "hard_delete sid st =
     (case get_scenario sid st of
        None \<Rightarrow> (Inl AttributeError, st)
      | Some s \<Rightarrow>
          if is_master s then (Inl DeletingMasterScenario, st)
          else (Inr (), delete_scenario sid (fold (cascade s) (map snd (pipelines s)) st)))"

section \<open>Dates and times\<close>

text \<open>
  The part of Python's \<^verbatim>\<open>datetime\<close> and \<^verbatim>\<open>calendar\<close> modules that the Cycle Manager uses,
  over the proleptic Gregorian calendar: January 1 of year 1 has ordinal 1, dates range
  from 0001-01-01 to 9999-12-31, and arithmetic that leaves this range raises
  \<^verbatim>\<open>OverflowError\<close>.
\<close>

definition is_leap :: "int \<Rightarrow> bool" where
  "is_leap y = (y mod 4 = 0 \<and> (y mod 100 \<noteq> 0 \<or> y mod 400 = 0))"

definition days_in_month :: "int \<Rightarrow> int \<Rightarrow> int" where
  "days_in_month y m =
     (if m = 2 then (if is_leap y then 29 else 28)
      else if m = 4 \<or> m = 6 \<or> m = 9 \<or> m = 11 then 30 else 31)"

definition days_before_year :: "int \<Rightarrow> int" where
  "days_before_year y = (y - 1) * 365 + (y - 1) div 4 - (y - 1) div 100 + (y - 1) div 400"

definition days_before_month :: "int \<Rightarrow> int \<Rightarrow> int" where
  "days_before_month y m =
     [0, 31, 59, 90, 120, 151, 181, 212, 243, 273, 304, 334] ! nat (m - 1)
       + (if 2 < m \<and> is_leap y then 1 else 0)"

definition valid_date :: "date \<Rightarrow> bool" where
  "valid_date d =
     (1 \<le> year d \<and> year d \<le> 9999 \<and> 1 \<le> month d \<and> month d \<le> 12
      \<and> 1 \<le> day d \<and> day d \<le> days_in_month (year d) (month d))"

definition valid_time :: "time \<Rightarrow> bool" where
  "valid_time t =
     (0 \<le> hour t \<and> hour t < 24 \<and> 0 \<le> minute t \<and> minute t < 60
      \<and> 0 \<le> second t \<and> second t < 60 \<and> 0 \<le> microsecond t \<and> microsecond t < 1000000)"

definition valid_datetime :: "datetime \<Rightarrow> bool" where
  "valid_datetime dt = (valid_date (date_of dt) \<and> valid_time (time_of dt))"

definition max_ordinal :: int where
  "max_ordinal = 3652059"

definition toordinal :: "date \<Rightarrow> int" where
  "toordinal d = days_before_year (year d) + days_before_month (year d) (month d) + day d"

text \<open>
  \<^verbatim>\<open>date.fromordinal\<close>: the year is found by stepping up from a lower bound until the
  ordinal no longer lies beyond the year's last day; the month from the zero-based day
  of the year by the library's estimate \<^verbatim>\<open>(n + 50) >> 5\<close>, lowered by one when it
  overshoots.
\<close>

function year_of_ordinal :: "int \<Rightarrow> int \<Rightarrow> int" where
  "year_of_ordinal y n =
     (if days_before_year (y + 1) < n then year_of_ordinal (y + 1) n else y)"
  by pat_completeness auto
termination
proof (relation "measure (\<lambda>(y, n). nat (n - days_before_year (y + 1)))")
  show "wf (measure (\<lambda>(y, n). nat (n - days_before_year (y + 1))))"
    by simp
next
  fix y n :: int
  assume "days_before_year (y + 1) < n"
  moreover have "days_before_year (y + 1) < days_before_year (y + 1 + 1)"
    unfolding days_before_year_def by simp
  ultimately show "((y + 1, n), (y, n)) \<in> measure (\<lambda>(y, n). nat (n - days_before_year (y + 1)))"
    by simp
qed

definition month_of_yday :: "int \<Rightarrow> int \<Rightarrow> int" where
  "month_of_yday y n =
     (let m = (n + 50) div 32
      in if n < days_before_month y m then m - 1 else m)"

definition fromordinal :: "int \<Rightarrow> date" where
  "fromordinal n =
     (let y = year_of_ordinal (n div 366 + 1) n;
          yd = n - 1 - days_before_year y;
          m = month_of_yday y yd
      in \<lparr>year = y, month = m, day = yd - days_before_month y m + 1\<rparr>)"

definition weekday :: "date \<Rightarrow> int" where
  "weekday d = (toordinal d + 6) mod 7"

text \<open>
  A \<^verbatim>\<open>timedelta\<close> is a whole number of microseconds; its \<^verbatim>\<open>days\<close> attribute is the floor of
  its quotient by the length of a day.
\<close>

type_synonym timedelta = int

definition us_per_day :: int where
  "us_per_day = 86400000000"

definition timedelta_days :: "int \<Rightarrow> timedelta" where
  "timedelta_days k = k * us_per_day"

definition timedelta_microseconds :: "int \<Rightarrow> timedelta" where
  "timedelta_microseconds k = k"

definition td_days :: "timedelta \<Rightarrow> int" where
  "td_days td = td div us_per_day"

definition midnight :: time where
  "midnight = \<lparr>hour = 0, minute = 0, second = 0, microsecond = 0\<rparr>"

definition time_us :: "time \<Rightarrow> int" where
  "time_us t = ((hour t * 60 + minute t) * 60 + second t) * 1000000 + microsecond t"

definition time_of_us :: "int \<Rightarrow> time" where
  "time_of_us r =
     \<lparr>hour = r div 3600000000, minute = (r div 60000000) mod 60,
      second = (r div 1000000) mod 60, microsecond = r mod 1000000\<rparr>"

definition new_date :: "int \<Rightarrow> int \<Rightarrow> int \<Rightarrow> error + date" where
  "new_date y m d =
     (if 1 \<le> y \<and> y \<le> 9999 \<and> 1 \<le> m \<and> m \<le> 12 \<and> 1 \<le> d \<and> d \<le> days_in_month y m
      then Inr \<lparr>year = y, month = m, day = d\<rparr>
      else Inl ValueError)"

definition date_add :: "date \<Rightarrow> timedelta \<Rightarrow> error + date" where
  "date_add d td =
     (let o' = toordinal d + td_days td
      in if 0 < o' \<and> o' \<le> max_ordinal then Inr (fromordinal o') else Inl OverflowError)"

definition date_sub :: "date \<Rightarrow> timedelta \<Rightarrow> error + date" where
  "date_sub d td = date_add d (timedelta_days (- td_days td))"

definition datetime_add :: "datetime \<Rightarrow> timedelta \<Rightarrow> error + datetime" where
  "datetime_add dt td =
     (let delta = toordinal (date_of dt) * us_per_day + time_us (time_of dt) + td;
          days = delta div us_per_day
      in if 0 < days \<and> days \<le> max_ordinal
         then Inr \<lparr>date_of = fromordinal days, time_of = time_of_us (delta mod us_per_day)\<rparr>
         else Inl OverflowError)"

definition datetime_sub :: "datetime \<Rightarrow> timedelta \<Rightarrow> error + datetime" where
  "datetime_sub dt td = datetime_add dt (- td)"

definition datetime_replace :: "datetime \<Rightarrow> int \<Rightarrow> int \<Rightarrow> error + datetime" where
  "datetime_replace dt m d =
     (case new_date (year (date_of dt)) m d of
        Inl e \<Rightarrow> Inl e
      | Inr d' \<Rightarrow> Inr (dt\<lparr>date_of := d'\<rparr>))"

fun digits :: "nat \<Rightarrow> nat \<Rightarrow> string" where
  "digits 0 n = []"
| "digits (Suc k) n = digits k (n div 10) @ [char_of (48 + n mod 10)]"

definition isoformat :: "datetime \<Rightarrow> string" where
  "isoformat dt =
     digits 4 (nat (year (date_of dt))) @ ''-'' @ digits 2 (nat (month (date_of dt))) @ ''-''
       @ digits 2 (nat (day (date_of dt))) @ ''T'' @ digits 2 (nat (hour (time_of dt))) @ '':''
       @ digits 2 (nat (minute (time_of dt))) @ '':'' @ digits 2 (nat (second (time_of dt)))
       @ (if microsecond (time_of dt) = 0 then []
          else ''.'' @ digits 6 (nat (microsecond (time_of dt))))"

definition bind_result :: "error + 'a \<Rightarrow> ('a \<Rightarrow> error + 'b) \<Rightarrow> error + 'b" where
  "bind_result r f = (case r of Inl e \<Rightarrow> Inl e | Inr x \<Rightarrow> f x)"

section \<open>The Cycle Manager\<close>

text \<open>
  The two bucket computations. The source is a sequence of independent \<^verbatim>\<open>if\<close> statements,
  one per frequency, each rebinding the running date; the model threads the running value
  through the same four steps.
\<close>

definition get_start_date_of_cycle :: "frequency \<Rightarrow> datetime \<Rightarrow> error + datetime" where
  "get_start_date_of_cycle f creation =
     bind_result (Inr (date_of creation)) (\<lambda>d0.
     bind_result (if f = WEEKLY then date_sub d0 (timedelta_days (weekday d0)) else Inr d0) (\<lambda>d1.
     bind_result (if f = MONTHLY then new_date (year d1) (month d1) 1 else Inr d1) (\<lambda>d2.
     bind_result (if f = YEARLY then new_date (year d2) 1 1 else Inr d2) (\<lambda>d3.
     Inr \<lparr>date_of = d3, time_of = midnight\<rparr>))))"

definition get_end_date_of_cycle :: "frequency \<Rightarrow> datetime \<Rightarrow> error + datetime" where
  "get_end_date_of_cycle f start =
     bind_result (if f = DAILY then datetime_add start (timedelta_days 1) else Inr start) (\<lambda>e1.
     bind_result (if f = WEEKLY
                  then datetime_add e1 (timedelta_days (7 - weekday (date_of e1)))
                  else Inr e1) (\<lambda>e2.
     bind_result (if f = MONTHLY
                  then (let last_day_of_month =
                              days_in_month (year (date_of start)) (month (date_of start))
                        in bind_result (datetime_replace e2 (month (date_of e2)) last_day_of_month)
                             (\<lambda>r. datetime_add r (timedelta_days 1)))
                  else Inr e2) (\<lambda>e3.
     bind_result (if f = YEARLY
                  then bind_result (datetime_replace e3 12 31)
                         (\<lambda>r. datetime_add r (timedelta_days 1))
                  else Inr e3) (\<lambda>e4.
     datetime_sub e4 (timedelta_microseconds 1)))))"

text \<open>
  Modelled from the spec: the cycle repository is not among the sources.
  \<^verbatim>\<open>get_cycles_by_frequency_and_start_date\<close> looks up the stored cycles with the given
  frequency and start date (spec section 4.1), and \<^verbatim>\<open>_set\<close> stores a cycle under its id.
  The identity of a new cycle is drawn by the entity class; it is the argument \<open>new_id\<close>
  here, and \<open>now\<close> is the reading of \<^verbatim>\<open>datetime.now()\<close>.
\<close>

definition get_cycles_by_frequency_and_start_date ::
    "frequency \<Rightarrow> datetime \<Rightarrow> state \<Rightarrow> cycle list" where
  "get_cycles_by_frequency_and_start_date f start st =
     filter (\<lambda>c. cycle_frequency c = f \<and> start_date c = start) (cycles st)"

fun store_cycle :: "cycle \<Rightarrow> cycle list \<Rightarrow> cycle list" where
  "store_cycle c [] = [c]"
| "store_cycle c (x # xs) = (if cycle_id x = cycle_id c then c # xs else x # store_cycle c xs)"

definition set_cycle :: "cycle \<Rightarrow> state \<Rightarrow> state" where
  "set_cycle c st = st\<lparr>cycles := store_cycle c (cycles st)\<rparr>"

definition cycle_manager_create ::
    "string \<Rightarrow> datetime \<Rightarrow> frequency \<Rightarrow> string option \<Rightarrow> datetime option \<Rightarrow> string option
      \<Rightarrow> state \<Rightarrow> (error + cycle) \<times> state" where
  "cycle_manager_create new_id now f name creation display st =
     (let creation_date = (case creation of Some d \<Rightarrow> d | None \<Rightarrow> now)
      in case get_start_date_of_cycle f creation_date of
           Inl e \<Rightarrow> (Inl e, st)
         | Inr start \<Rightarrow>
             (case get_end_date_of_cycle f start of
                Inl e \<Rightarrow> (Inl e, st)
              | Inr end' \<Rightarrow>
                  (let shown = (case display of
                                  Some n \<Rightarrow> if n = [] then isoformat start else n
                                | None \<Rightarrow> isoformat start);
                       c = \<lparr>cycle_id = new_id, cycle_frequency = f,
                            cycle_properties = [(''display_name'', shown)],
                            cycle_creation_date = creation_date,
                            start_date = start, end_date = end', cycle_name = name\<rparr>
                   in (Inr c, set_cycle c st))))"

definition cycle_manager_get_or_create ::
    "string \<Rightarrow> datetime \<Rightarrow> frequency \<Rightarrow> datetime option \<Rightarrow> string option
      \<Rightarrow> state \<Rightarrow> (error + cycle) \<times> state" where
  "cycle_manager_get_or_create new_id now f creation display st =
     (let creation_date = (case creation of Some d \<Rightarrow> d | None \<Rightarrow> now)
      in case get_start_date_of_cycle f creation_date of
           Inl e \<Rightarrow> (Inl e, st)
         | Inr start \<Rightarrow>
             (case get_cycles_by_frequency_and_start_date f start st of
                c # _ \<Rightarrow> (Inr c, st)
              | [] \<Rightarrow> cycle_manager_create new_id now f None (Some creation_date) display st))"

section \<open>Creation and comparison\<close>

text \<open>
  Python's truth test on an optional string (\<^verbatim>\<open>if display_name:\<close>,
  \<^verbatim>\<open>if data_node_config_id:\<close>): \<^verbatim>\<open>None\<close> and the empty string are false.
\<close>

definition truthy :: "string option \<Rightarrow> bool" where
  "truthy x = (case x of None \<Rightarrow> False | Some v \<Rightarrow> v \<noteq> [])"

text \<open>Assignment \<^verbatim>\<open>d[k] = v\<close> on a dictionary kept in insertion order.\<close>

fun dict_set :: "'k \<Rightarrow> 'v \<Rightarrow> ('k \<times> 'v) list \<Rightarrow> ('k \<times> 'v) list" where
  "dict_set k v [] = [(k, v)]"
| "dict_set k v (kv # kvs) = (if fst kv = k then (k, v) # kvs else kv # dict_set k v kvs)"

text \<open>
  Modelled from the spec: the configuration class \<^verbatim>\<open>ScenarioConfig\<close> is not among the
  sources. The spec (section 6) gives it \<^verbatim>\<open>pipeline_configs\<close>, \<^verbatim>\<open>frequency\<close>, \<^verbatim>\<open>properties\<close> and
  \<^verbatim>\<open>comparators\<close>, a mapping from data node configuration id to a sequence of comparator
  functions; the manager also reads its \<^verbatim>\<open>id\<close>. A comparator is a function on the sequence
  of values read, with its \<^verbatim>\<open>__name__\<close>.
\<close>

record ('v, 'r) comparator =
  comparator_name :: string
  comparator_fun :: "'v list \<Rightarrow> 'r"

record ('v, 'r) scenario_config =
  cfg_id :: string
  pipeline_configs :: "string list"
  cfg_frequency :: "frequency option"
  cfg_properties :: properties
  comparators :: "(string \<times> ('v, 'r) comparator list) list"

text \<open>
  \<^verbatim>\<open>_ScenarioManager._create\<close>. The collaborators are arguments: \<open>pm_get_or_create\<close> is
  \<^verbatim>\<open>_PipelineManager._get_or_create\<close>, \<open>sid\<close> the identity drawn by \<^verbatim>\<open>Scenario.new_id\<close>,
  \<open>cid\<close> the identity a new cycle would get and \<open>now\<close> the reading of the clock. The
  constructor of \<^verbatim>\<open>Scenario\<close> keys the pipelines by their configuration id and starts
  with no tag and no subscriber.
\<close>

definition create ::
    "(string \<Rightarrow> string \<Rightarrow> pipeline) \<Rightarrow> string \<Rightarrow> string \<Rightarrow> datetime \<Rightarrow> ('v, 'r) scenario_config
      \<Rightarrow> datetime option \<Rightarrow> string option \<Rightarrow> state \<Rightarrow> (error + scenario) \<times> state" where
  "create pm_get_or_create sid cid now config creation display st =
     (let ps = map (\<lambda>p_config. pm_get_or_create p_config sid) (pipeline_configs config);
          r = (case cfg_frequency config of
                 Some f \<Rightarrow>
                   (case cycle_manager_get_or_create cid now f creation None st of
                      (Inl e, st1) \<Rightarrow> (Inl e, st1)
                    | (Inr c, st1) \<Rightarrow> (Inr (Some c), st1))
               | None \<Rightarrow> (Inr None, st))
      in case r of
           (Inl e, st1) \<Rightarrow> (Inl e, st1)
         | (Inr cyc, st1) \<Rightarrow>
             (let is_master_scenario =
                    (case cyc of
                       Some c \<Rightarrow> length (get_all_by_cycle c st1) = 0
                     | None \<Rightarrow> False);
                  props = (if truthy display
                           then (cfg_properties config)\<lparr>display_name := display\<rparr>
                           else cfg_properties config);
                  scn = \<lparr>scenario_id = sid, config_id = cfg_id config,
                         pipelines = fold (\<lambda>p d. dict_set (pipeline_config_id p) p d) ps [],
                         scenario_properties = props, creation_date = creation,
                         is_master = is_master_scenario, cycle = cyc,
                         tags = {}, subscribers = []\<rparr>
              in (Inr scn, set_scenario scn st1)))"

text \<open>
  \<^verbatim>\<open>_ScenarioManager._compare\<close>. \<open>config_scenarios\<close> is the lookup \<^verbatim>\<open>Config.scenarios.get\<close> and
  \<open>read_data_node s dn\<close> the value \<^verbatim>\<open>s.__getattr__(dn).read()\<close>. The result is the
  dictionary of dictionaries the source builds, in insertion order.
\<close>

definition compare_data_node ::
    "(scenario \<Rightarrow> string \<Rightarrow> 'v) \<Rightarrow> scenario list \<Rightarrow> string \<Rightarrow> ('v, 'r) comparator list
      \<Rightarrow> (string \<times> 'r) list" where
  "compare_data_node read_data_node scns dn cmps =
     (let data_nodes = map (\<lambda>s. read_data_node s dn) scns
      in fold (\<lambda>c d. dict_set (comparator_name c) (comparator_fun c data_nodes) d) cmps [])"

definition compare ::
    "(string \<Rightarrow> ('v, 'r) scenario_config option) \<Rightarrow> (scenario \<Rightarrow> string \<Rightarrow> 'v) \<Rightarrow> scenario list
      \<Rightarrow> string option \<Rightarrow> error + (string \<times> (string \<times> 'r) list) list" where
  "compare config_scenarios read_data_node scns data_node_config_id =
     (if length scns < 2 then Inl InsufficientScenarioToCompare
      else if \<not> list_all (\<lambda>s. config_id (scns ! 0) = config_id s) scns
      then Inl DifferentScenarioConfigs
      else
        (case config_scenarios (config_id (scns ! 0)) of
           Some scenario_config \<Rightarrow>
             bind_result
               (case data_node_config_id of
                  Some d \<Rightarrow>
                    if truthy data_node_config_id
                    then (case map_of (comparators scenario_config) d of
                            Some cmps \<Rightarrow> Inr [(d, cmps)]
                          | None \<Rightarrow> Inl NonExistingComparator)
                    else Inr (comparators scenario_config)
                | None \<Rightarrow> Inr (comparators scenario_config))
               (\<lambda>dn_comparators.
                  Inr (fold (\<lambda>(dn, cmps) results.
                               dict_set dn (compare_data_node read_data_node scns dn cmps) results)
                         dn_comparators []))
         | None \<Rightarrow> Inl (NonExistingScenarioConfig (config_id (scns ! 0)))))"

section \<open>Properties of states and calendar notions used in the statements\<close>

text \<open>
  Entities are stored under their identity: no two stored scenarios, and no two stored
  cycles, share an id.
\<close>

definition unique_ids :: "state \<Rightarrow> bool" where
  "unique_ids st = distinct (map scenario_id (scenarios st))"

definition unique_cycle_ids :: "state \<Rightarrow> bool" where
  "unique_cycle_ids st = distinct (map cycle_id (cycles st))"






text \<open>
  The tag invariant of the data model, for one cycle and one tag: no stored scenario of
  the cycle other than \<open>a\<close> holds the tag.
\<close>

definition only_holder :: "scenario \<Rightarrow> cycle \<Rightarrow> string \<Rightarrow> state \<Rightarrow> bool" where
  "only_holder a c t st =
     (\<forall>x \<in> set (scenarios st). in_cycle c x \<and> has_tag x t \<longrightarrow> x = a)"

definition only_master :: "scenario \<Rightarrow> cycle \<Rightarrow> state \<Rightarrow> bool" where
  "only_master a c st =
     (\<forall>x \<in> set (scenarios st). in_cycle c x \<and> is_master x \<longrightarrow> x = a)"

text \<open>
  A tag is authorized for a scenario when the guard of \<^verbatim>\<open>_tag\<close> lets it pass: the
  scenario has no \<^verbatim>\<open>authorized_tags\<close>, or an empty set, or a set that contains the tag.
\<close>

definition authorized :: "scenario \<Rightarrow> string \<Rightarrow> bool" where
  "authorized s t =
     (case authorized_tags (scenario_properties s) of
        None \<Rightarrow> True
      | Some a \<Rightarrow> a = {} \<or> t \<in> a)"

text \<open>
  The calendar, in its own terms: the day after a date, the first day of the following
  month, and the first day of the bucket that follows the bucket starting at a date
  (the next day, the day a week later, the first of the next month, January 1 of the
  next year). None of these uses ordinals. The last instant of a day is 23:59:59.999999.
\<close>

definition first_of_next_month :: "date \<Rightarrow> date" where
  "first_of_next_month d =
     (if month d < 12 then \<lparr>year = year d, month = month d + 1, day = 1\<rparr>
      else \<lparr>year = year d + 1, month = 1, day = 1\<rparr>)"

definition day_after :: "date \<Rightarrow> date" where
  "day_after d =
     (if day d < days_in_month (year d) (month d) then d\<lparr>day := day d + 1\<rparr>
      else first_of_next_month d)"

definition next_bucket_start :: "frequency \<Rightarrow> date \<Rightarrow> date" where
  "next_bucket_start f d =
     (case f of
        DAILY \<Rightarrow> day_after d
      | WEEKLY \<Rightarrow> (day_after ^^ 7) d
      | MONTHLY \<Rightarrow> first_of_next_month d
      | YEARLY \<Rightarrow> \<lparr>year = year d + 1, month = 1, day = 1\<rparr>)"

definition last_microsecond :: time where
  "last_microsecond = \<lparr>hour = 23, minute = 59, second = 59, microsecond = 999999\<rparr>"

text \<open>
  A date of the proleptic Gregorian calendar, in any year from 1 on: the month is one of
  the twelve and the day exists in that month. A valid date is such a date of a year up
  to 9999.
\<close>

definition calendar_date :: "date \<Rightarrow> bool" where
  "calendar_date d =
     (1 \<le> year d \<and> 1 \<le> month d \<and> month d \<le> 12
      \<and> 1 \<le> day d \<and> day d \<le> days_in_month (year d) (month d))"

section \<open>Example entities\<close>

definition at_midnight :: "int \<Rightarrow> int \<Rightarrow> int \<Rightarrow> datetime" where
  "at_midnight y m d = \<lparr>date_of = \<lparr>year = y, month = m, day = d\<rparr>, time_of = midnight\<rparr>"

definition wednesday_noon :: datetime where
  "wednesday_noon =
     \<lparr>date_of = \<lparr>year = 2022, month = 3, day = 9\<rparr>,
      time_of = \<lparr>hour = 12, minute = 30, second = 15, microsecond = 250\<rparr>\<rparr>"

definition friday_noon :: datetime where
  "friday_noon =
     \<lparr>date_of = \<lparr>year = 2022, month = 3, day = 11\<rparr>,
      time_of = \<lparr>hour = 12, minute = 0, second = 0, microsecond = 0\<rparr>\<rparr>"

definition next_wednesday :: datetime where
  "next_wednesday =
     \<lparr>date_of = \<lparr>year = 2022, month = 3, day = 16\<rparr>,
      time_of = \<lparr>hour = 8, minute = 0, second = 0, microsecond = 0\<rparr>\<rparr>"

definition week_10 :: cycle where
  "week_10 =
     \<lparr>cycle_id = ''CYCLE_week_10'', cycle_frequency = WEEKLY,
      cycle_properties = [(''display_name'', ''2022-03-07T00:00:00'')],
      cycle_creation_date = wednesday_noon,
      start_date = at_midnight 2022 3 7,
      end_date = \<lparr>date_of = \<lparr>year = 2022, month = 3, day = 13\<rparr>, time_of = last_microsecond\<rparr>,
      cycle_name = None\<rparr>"

definition free_tags :: properties where
  "free_tags = \<lparr>authorized_tags = None, display_name = None, other_properties = []\<rparr>"

definition two_tags :: properties where
  "two_tags =
     \<lparr>authorized_tags = Some {''fst'', ''snd''}, display_name = None, other_properties = []\<rparr>"

definition own_pipeline :: pipeline where
  "own_pipeline =
     \<lparr>pipeline_id = ''PIPELINE_own'', parent_id = Some ''PIPELINE_own'',
      pipeline_config_id = ''own''\<rparr>"

definition child_pipeline :: pipeline where
  "child_pipeline =
     \<lparr>pipeline_id = ''PIPELINE_child'', parent_id = Some ''SCENARIO_b'',
      pipeline_config_id = ''child''\<rparr>"

definition shared_pipeline :: pipeline where
  "shared_pipeline =
     \<lparr>pipeline_id = ''PIPELINE_shared'', parent_id = None, pipeline_config_id = ''shared''\<rparr>"

definition scn_a :: scenario where
  "scn_a =
     \<lparr>scenario_id = ''SCENARIO_a'', config_id = ''sc'', pipelines = [],
      scenario_properties = two_tags, creation_date = Some wednesday_noon,
      is_master = True, cycle = Some week_10, tags = {''fst''}, subscribers = []\<rparr>"

definition scn_b :: scenario where
  "scn_b =
     \<lparr>scenario_id = ''SCENARIO_b'', config_id = ''sc'',
      pipelines = [(''own'', own_pipeline), (''child'', child_pipeline),
                   (''shared'', shared_pipeline)],
      scenario_properties = two_tags, creation_date = Some friday_noon,
      is_master = False, cycle = Some week_10, tags = {}, subscribers = []\<rparr>"

definition scn_x :: scenario where
  "scn_x =
     \<lparr>scenario_id = ''SCENARIO_x'', config_id = ''free'', pipelines = [],
      scenario_properties = free_tags, creation_date = None,
      is_master = False, cycle = None, tags = {}, subscribers = []\<rparr>"

definition scn_y :: scenario where
  "scn_y =
     \<lparr>scenario_id = ''SCENARIO_y'', config_id = ''free'', pipelines = [],
      scenario_properties = free_tags, creation_date = None,
      is_master = False, cycle = None, tags = {}, subscribers = []\<rparr>"

definition two_in_week :: state where
  "two_in_week =
     \<lparr>scenarios = [scn_a, scn_b], cycles = [week_10], pipeline_hard_deletes = []\<rparr>"

definition two_without_cycle :: state where
  "two_without_cycle =
     \<lparr>scenarios = [scn_x, scn_y], cycles = [], pipeline_hard_deletes = []\<rparr>"

definition week_11 :: cycle where
  "week_11 =
     \<lparr>cycle_id = ''CYCLE_week_11'', cycle_frequency = WEEKLY,
      cycle_properties = [(''display_name'', ''2022-03-14T00:00:00'')],
      cycle_creation_date = next_wednesday,
      start_date = at_midnight 2022 3 14,
      end_date = \<lparr>date_of = \<lparr>year = 2022, month = 3, day = 20\<rparr>, time_of = last_microsecond\<rparr>,
      cycle_name = None\<rparr>"

definition first_created :: scenario where
  "first_created =
     \<lparr>scenario_id = ''SCENARIO_1'', config_id = ''sc'',
      pipelines = [(''child'',
        \<lparr>pipeline_id = ''PIPELINE_child'', parent_id = Some ''SCENARIO_1'',
         pipeline_config_id = ''child''\<rparr>)],
      scenario_properties = two_tags, creation_date = Some wednesday_noon,
      is_master = True, cycle = Some week_10, tags = {}, subscribers = []\<rparr>"


definition total_comparator :: "(int, int) comparator" where
  "total_comparator = \<lparr>comparator_name = ''total'', comparator_fun = sum_list\<rparr>"

definition count_comparator :: "(int, int) comparator" where
  "count_comparator = \<lparr>comparator_name = ''count'', comparator_fun = (\<lambda>xs. int (length xs))\<rparr>"

definition sales_config :: "(int, int) scenario_config" where
  "sales_config =
     \<lparr>cfg_id = ''sc'', pipeline_configs = [''child''], cfg_frequency = Some WEEKLY,
      cfg_properties = two_tags,
      comparators = [(''sales'', [total_comparator, count_comparator])]\<rparr>"

definition config_store :: "string \<Rightarrow> (int, int) scenario_config option" where
  "config_store i = (if i = ''sc'' then Some sales_config else None)"

definition read_sales :: "scenario \<Rightarrow> string \<Rightarrow> int" where
  "read_sales s dn = (if scenario_id s = ''SCENARIO_a'' then 10 else 32)"

definition pipelines_of_scenario :: "string \<Rightarrow> string \<Rightarrow> pipeline" where
  "pipelines_of_scenario p_config sid =
     \<lparr>pipeline_id = ''PIPELINE_'' @ p_config, parent_id = Some sid,
      pipeline_config_id = p_config\<rparr>"





section \<open>The repository\<close>

lemma find_store_same:
  "find (\<lambda>x. scenario_id x = scenario_id s) (store s xs) = Some s"
  by (induction xs) auto

lemma find_store_other:
  "sid \<noteq> scenario_id s \<Longrightarrow>
     find (\<lambda>x. scenario_id x = sid) (store s xs) = find (\<lambda>x. scenario_id x = sid) xs"
  by (induction xs) auto

lemma filter_store_other:
  "filter (\<lambda>x. scenario_id x \<noteq> scenario_id s) (store s xs)
     = filter (\<lambda>x. scenario_id x \<noteq> scenario_id s) xs"
  by (induction xs) auto

lemma get_set_same: "get_scenario (scenario_id s) (set_scenario s st) = Some s"
  by (simp add: get_scenario_def set_scenario_def find_store_same)

lemma get_set_other:
  "sid \<noteq> scenario_id s \<Longrightarrow> get_scenario sid (set_scenario s st) = get_scenario sid st"
  by (simp add: get_scenario_def set_scenario_def find_store_other)

lemma get_scenario_id: "get_scenario sid st = Some s \<Longrightarrow> scenario_id s = sid"
  by (auto simp: get_scenario_def find_Some_iff)


lemma get_delete_same: "get_scenario sid (delete_scenario sid st) = None"
  by (simp add: get_scenario_def delete_scenario_def find_None_iff)

lemma fold_cascade:
  "fold (cascade s) ps st =
     st\<lparr>pipeline_hard_deletes := pipeline_hard_deletes st
          @ map (\<lambda>p. (pipeline_id p, scenario_id s))
              (filter (\<lambda>p. parent_id p = Some (scenario_id s) \<or> parent_id p = Some (pipeline_id p)) ps)\<rparr>"
  by (induction ps arbitrary: st) (simp_all add: cascade_def pipeline_hard_delete_def)

section \<open>Guards fail before any mutation\<close>

text \<open>
  Claim C6. A guarded operation that fails changes nothing: tagging a scenario whose
  \<^verbatim>\<open>authorized_tags\<close> set is non-empty and does not contain the tag raises
  \<^verbatim>\<open>UnauthorizedTagError\<close> and leaves the state as it was; deleting or hard-deleting a
  scenario that is stored as master raises \<^verbatim>\<open>DeletingMasterScenario\<close> and leaves the state
  as it was.
\<close>

theorem guards_fail_fast:
  "(authorized_tags (scenario_properties s) = Some a \<and> a \<noteq> {} \<and> t \<notin> a
      \<longrightarrow> tag s t st = (Inl UnauthorizedTagError, st))
   \<and> (get_scenario sid st = Some m \<and> is_master m
      \<longrightarrow> delete sid st = (Inl DeletingMasterScenario, st)
        \<and> hard_delete sid st = (Inl DeletingMasterScenario, st))"
  by (simp add: tag_def delete_def hard_delete_def)

theorem guards_fail_fast_witness:
  "authorized_tags (scenario_properties scn_b) = Some {''fst'', ''snd''}
   \<and> {''fst'', ''snd''} \<noteq> ({} :: string set) \<and> ''third'' \<notin> {''fst'', ''snd''}
   \<and> tag scn_b ''third'' two_in_week = (Inl UnauthorizedTagError, two_in_week)
   \<and> get_scenario ''SCENARIO_a'' two_in_week = Some scn_a \<and> is_master scn_a
   \<and> delete ''SCENARIO_a'' two_in_week = (Inl DeletingMasterScenario, two_in_week)
   \<and> hard_delete ''SCENARIO_a'' two_in_week = (Inl DeletingMasterScenario, two_in_week)"
  using guards_fail_fast [where s = scn_b and a = "{''fst'', ''snd''}" and t = "''third''"
      and st = two_in_week and sid = "''SCENARIO_a''" and m = scn_a]
  by (simp add: scn_a_def scn_b_def two_in_week_def two_tags_def get_scenario_def)

section \<open>Hard deletion\<close>

text \<open>
  Claim C1, as the code has it. Hard-deleting a stored scenario that is not master
  succeeds, removes the scenario record, leaves every other scenario and the cycles as
  they were, and issues one hard delete to the Pipeline Manager, scoped to the scenario,
  for each of the scenario's pipelines whose \<^verbatim>\<open>parent_id\<close> is the scenario's id or the
  pipeline's own id, in dictionary order, and for no other pipeline.
\<close>

theorem hard_delete_cascade:
  assumes "get_scenario sid st = Some s" and "\<not> is_master s"
  shows "fst (hard_delete sid st) = Inr ()
    \<and> get_scenario sid (snd (hard_delete sid st)) = None
    \<and> scenarios (snd (hard_delete sid st)) = filter (\<lambda>x. scenario_id x \<noteq> sid) (scenarios st)
    \<and> cycles (snd (hard_delete sid st)) = cycles st
    \<and> pipeline_hard_deletes (snd (hard_delete sid st)) =
        pipeline_hard_deletes st
          @ map (\<lambda>p. (pipeline_id p, sid))
              (filter (\<lambda>p. parent_id p = Some sid \<or> parent_id p = Some (pipeline_id p))
                 (map snd (pipelines s)))"
proof -
  have sid: "scenario_id s = sid"
    using assms(1) by (rule get_scenario_id)
  have run: "hard_delete sid st =
      (Inr (), delete_scenario sid (fold (cascade s) (map snd (pipelines s)) st))"
    using assms by (simp add: hard_delete_def)
  show ?thesis
    unfolding run fold_cascade sid
    by (simp add: get_scenario_def delete_scenario_def find_None_iff)
qed

theorem hard_delete_cascade_witness:
  "get_scenario ''SCENARIO_b'' two_in_week = Some scn_b \<and> \<not> is_master scn_b
   \<and> fst (hard_delete ''SCENARIO_b'' two_in_week) = Inr ()
   \<and> get_scenario ''SCENARIO_b'' (snd (hard_delete ''SCENARIO_b'' two_in_week)) = None
   \<and> scenarios (snd (hard_delete ''SCENARIO_b'' two_in_week)) = [scn_a]"
proof -
  have g: "get_scenario ''SCENARIO_b'' two_in_week = Some scn_b"
    by (simp add: get_scenario_def two_in_week_def scn_a_def scn_b_def)
  have m: "\<not> is_master scn_b"
    by (simp add: scn_b_def)
  have "scenarios two_in_week = [scn_a, scn_b]" by (simp add: two_in_week_def)
  moreover have "scenario_id scn_a \<noteq> ''SCENARIO_b''" "scenario_id scn_b = ''SCENARIO_b''"
    by (simp_all add: scn_a_def scn_b_def)
  ultimately show ?thesis
    using hard_delete_cascade [OF g m] g m by simp
qed

text \<open>
  The claim as written fails: scenario \<open>scn_b\<close> is stored and not master, its pipeline
  \<open>own_pipeline\<close> has its own id as \<^verbatim>\<open>parent_id\<close> (and not the scenario's), and the hard
  deletion of \<open>scn_b\<close> issues a hard delete for it, before the one for the pipeline the
  scenario owns.
\<close>

theorem hard_delete_own_pipeline_counterexample:
  "get_scenario ''SCENARIO_b'' two_in_week = Some scn_b \<and> \<not> is_master scn_b
   \<and> (''own'', own_pipeline) \<in> set (pipelines scn_b)
   \<and> parent_id own_pipeline = Some (pipeline_id own_pipeline)
   \<and> parent_id own_pipeline \<noteq> Some (scenario_id scn_b)
   \<and> pipeline_hard_deletes (snd (hard_delete ''SCENARIO_b'' two_in_week)) =
       [(pipeline_id own_pipeline, ''SCENARIO_b''), (pipeline_id child_pipeline, ''SCENARIO_b'')]"
  by (simp add: get_scenario_def two_in_week_def scn_a_def scn_b_def hard_delete_def
      cascade_def pipeline_hard_delete_def delete_scenario_def own_pipeline_def
      child_pipeline_def shared_pipeline_def)

section \<open>Tagging a scenario without a cycle\<close>

text \<open>
  Claim C10. For a scenario without a cycle, tagging adds the tag to that scenario (when
  the guard lets the tag pass) and stores it; the stored scenarios with any other id are
  exactly what they were, whether the guard passes or not, since no transfer takes place.
  Hence two scenarios without a cycle, tagged one after the other with the same tag, are
  both stored holding it.
\<close>

theorem tag_without_cycle:
  assumes "cycle s = None"
  shows "(authorized s t \<longrightarrow>
            tag s t st = (Inr (), set_scenario (add_tag s t) st)
          \<and> get_scenario (scenario_id s) (snd (tag s t st)) = Some (add_tag s t)
          \<and> has_tag (add_tag s t) t)
     \<and> filter (\<lambda>x. scenario_id x \<noteq> scenario_id s) (scenarios (snd (tag s t st)))
         = filter (\<lambda>x. scenario_id x \<noteq> scenario_id s) (scenarios st)
     \<and> (\<forall>s2. cycle s2 = None \<and> scenario_id s2 \<noteq> scenario_id s \<and> authorized s t \<and> authorized s2 t
          \<longrightarrow> get_scenario (scenario_id s) (snd (tag s2 t (snd (tag s t st)))) = Some (add_tag s t)
            \<and> get_scenario (scenario_id s2) (snd (tag s2 t (snd (tag s t st)))) = Some (add_tag s2 t)
            \<and> has_tag (add_tag s t) t \<and> has_tag (add_tag s2 t) t)"
proof -
  have ok: "tag s' t st' = (Inr (), set_scenario (add_tag s' t) st')"
    if "cycle s' = None" and "authorized s' t" for s' st'
    using that by (auto simp: tag_def authorized_def split: option.splits)
  have ko: "snd (tag s t st) = st" if "\<not> authorized s t"
    using that by (auto simp: tag_def authorized_def split: option.splits)
  have id: "scenario_id (add_tag s' t) = scenario_id s'" for s'
    by (simp add: add_tag_def)
  have part1: "authorized s t \<longrightarrow>
            tag s t st = (Inr (), set_scenario (add_tag s t) st)
          \<and> get_scenario (scenario_id s) (snd (tag s t st)) = Some (add_tag s t)
          \<and> has_tag (add_tag s t) t"
    using ok [OF assms] get_set_same [of "add_tag s t" st]
    by (simp add: id has_tag_def add_tag_def)
  have part2: "filter (\<lambda>x. scenario_id x \<noteq> scenario_id s) (scenarios (snd (tag s t st)))
         = filter (\<lambda>x. scenario_id x \<noteq> scenario_id s) (scenarios st)"
  proof (cases "authorized s t")
    case True
    then show ?thesis
      using ok [OF assms True] filter_store_other [of "add_tag s t" "scenarios st"]
      by (simp add: id set_scenario_def)
  next
    case False
    then show ?thesis by (simp add: ko)
  qed
  have part3: "get_scenario (scenario_id s) (snd (tag s2 t (snd (tag s t st)))) = Some (add_tag s t)
            \<and> get_scenario (scenario_id s2) (snd (tag s2 t (snd (tag s t st)))) = Some (add_tag s2 t)
            \<and> has_tag (add_tag s t) t \<and> has_tag (add_tag s2 t) t"
    if "cycle s2 = None" "scenario_id s2 \<noteq> scenario_id s" "authorized s t" "authorized s2 t" for s2
  proof -
    have "snd (tag s2 t (snd (tag s t st)))
        = set_scenario (add_tag s2 t) (set_scenario (add_tag s t) st)"
      using ok [OF assms that(3)] ok [OF that(1) that(4)] by simp
    then show ?thesis
      using that(2) get_set_same [of "add_tag s t" st]
        get_set_same [of "add_tag s2 t" "set_scenario (add_tag s t) st"]
        get_set_other [of "scenario_id s" "add_tag s2 t" "set_scenario (add_tag s t) st"]
      by (simp add: id has_tag_def add_tag_def)
  qed
  show ?thesis
    using part1 part2 part3 by blast
qed

theorem tag_without_cycle_witness:
  "cycle scn_x = None \<and> cycle scn_y = None \<and> scenario_id scn_y \<noteq> scenario_id scn_x
   \<and> authorized scn_x ''best'' \<and> authorized scn_y ''best''
   \<and> get_scenario ''SCENARIO_x'' (snd (tag scn_y ''best'' (snd (tag scn_x ''best'' two_without_cycle))))
       = Some (add_tag scn_x ''best'')
   \<and> get_scenario ''SCENARIO_y'' (snd (tag scn_y ''best'' (snd (tag scn_x ''best'' two_without_cycle))))
       = Some (add_tag scn_y ''best'')
   \<and> has_tag (add_tag scn_x ''best'') ''best'' \<and> has_tag (add_tag scn_y ''best'') ''best''"
proof -
  have x: "cycle scn_x = None" and y: "cycle scn_y = None"
    by (simp_all add: scn_x_def scn_y_def)
  have ids: "scenario_id scn_x = ''SCENARIO_x''" "scenario_id scn_y = ''SCENARIO_y''"
    by (simp_all add: scn_x_def scn_y_def)
  have au: "authorized scn_x ''best''" "authorized scn_y ''best''"
    by (simp_all add: authorized_def scn_x_def scn_y_def free_tags_def)
  show ?thesis
    using conjunct2 [OF conjunct2 [OF tag_without_cycle [OF x, of "''best''" two_without_cycle]],
        rule_format, of scn_y] x y ids au
    by simp
qed

section \<open>Stores with unique identities\<close>

lemma set_store:
  "distinct (map scenario_id xs) \<Longrightarrow>
     set (store s xs) = insert s {x \<in> set xs. scenario_id x \<noteq> scenario_id s}"
  by (induction xs) (auto simp: image_iff)

lemma distinct_store:
  "distinct (map scenario_id xs) \<Longrightarrow> distinct (map scenario_id (store s xs))"
  by (induction xs) (auto simp: set_store image_iff)

lemma unique_ids_set: "unique_ids st \<Longrightarrow> unique_ids (set_scenario s st)"
  by (simp add: unique_ids_def set_scenario_def distinct_store)

lemma set_set_scenario:
  "unique_ids st \<Longrightarrow>
     set (scenarios (set_scenario s st))
       = insert s {x \<in> set (scenarios st). scenario_id x \<noteq> scenario_id s}"
  by (simp add: unique_ids_def set_scenario_def set_store)

lemma find_filter_conj: "find P (filter Q xs) = find (\<lambda>x. Q x \<and> P x) xs"
  by (induction xs) auto

lemma find_unique:
  assumes "x \<in> set xs" and "P x" and "\<forall>y \<in> set xs. P y \<longrightarrow> y = x"
  shows "find P xs = Some x"
proof -
  have "find P xs \<noteq> None"
    using assms(1,2) by (simp add: find_None_iff) blast
  then obtain y where y: "find P xs = Some y"
    by blast
  then have "y \<in> set xs \<and> P y"
    unfolding find_Some_iff by (metis nth_mem)
  then have "y = x"
    using assms(3) by blast
  then show ?thesis
    using y by simp
qed


section \<open>Tag transfer\<close>

text \<open>
  Claim C3. Let \<open>b\<close> belong to cycle \<open>c\<close> and let the tag be authorized for \<open>b\<close>. If
  another stored scenario \<open>a\<close> of the same cycle holds the tag (and, as the data model
  requires, is the only one of the cycle that does), then tagging \<open>b\<close> succeeds, first
  stores \<open>a\<close> without the tag and then \<open>b\<close> with it; afterwards \<open>a\<close> is stored without the
  tag, \<open>b\<close> with it, and the scenario of the cycle found by the tag is \<open>b\<close>.
\<close>

theorem tag_transfers:
  assumes ids: "unique_ids st"
    and cyc: "cycle b = Some c"
    and auth: "authorized b t"
    and a_in: "a \<in> set (scenarios st)" "in_cycle c a" "has_tag a t"
    and other: "scenario_id a \<noteq> scenario_id b"
    and only: "only_holder a c t st"
  shows "tag b t st = (Inr (), set_scenario (add_tag b t) (set_scenario (remove_tag a t) st))
    \<and> get_scenario (scenario_id a) (snd (tag b t st)) = Some (remove_tag a t)
    \<and> \<not> has_tag (remove_tag a t) t
    \<and> get_scenario (scenario_id b) (snd (tag b t st)) = Some (add_tag b t)
    \<and> has_tag (add_tag b t) t
    \<and> get_by_tag c t (snd (tag b t st)) = Some (add_tag b t)"
proof -
  let ?a' = "remove_tag a t" and ?b' = "add_tag b t"
  let ?st1 = "set_scenario ?a' st"
  let ?st2 = "set_scenario ?b' ?st1"
  have ida: "scenario_id ?a' = scenario_id a" and idb: "scenario_id ?b' = scenario_id b"
    by (simp_all add: remove_tag_def add_tag_def)
  have old: "get_by_tag c t st = Some a"
    unfolding get_by_tag_def get_all_by_cycle_def get_all_def find_filter_conj
  proof (rule find_unique)
    show "a \<in> set (scenarios st)" by fact
    show "in_cycle c a \<and> has_tag a t" using a_in by simp
    show "\<forall>y \<in> set (scenarios st). in_cycle c y \<and> has_tag y t \<longrightarrow> y = a"
      using only unfolding only_holder_def .
  qed
  have guard: "\<not> ((case authorized_tags (scenario_properties b) of Some x \<Rightarrow> x | None \<Rightarrow> {}) \<noteq> {}
      \<and> t \<notin> (case authorized_tags (scenario_properties b) of Some x \<Rightarrow> x | None \<Rightarrow> {}))"
    using auth by (cases "authorized_tags (scenario_properties b)") (simp_all add: authorized_def)
  have run: "tag b t st = (Inr (), ?st2)"
    unfolding tag_def Let_def using guard cyc old by simp
  have ga: "get_scenario (scenario_id a) ?st2 = Some ?a'"
    using other get_set_other [of "scenario_id a" ?b' ?st1] get_set_same [of ?a' st]
    by (simp add: ida idb)
  have gb: "get_scenario (scenario_id b) ?st2 = Some ?b'"
    using get_set_same [of ?b' ?st1] by (simp add: idb)
  have na: "\<not> has_tag ?a' t" and hb: "has_tag ?b' t"
    by (simp_all add: has_tag_def remove_tag_def add_tag_def)
  have set2: "set (scenarios ?st2) =
      insert ?b' {x \<in> insert ?a' {x \<in> set (scenarios st). scenario_id x \<noteq> scenario_id a}.
                   scenario_id x \<noteq> scenario_id b}"
    using ids by (simp add: set_set_scenario unique_ids_set ida idb)
  have cb: "in_cycle c ?b'"
    using cyc by (simp add: in_cycle_def cycle_eq_def add_tag_def)
  have uniq: "\<forall>y \<in> set (scenarios ?st2). in_cycle c y \<and> has_tag y t \<longrightarrow> y = ?b'"
  proof (intro ballI impI)
    fix y
    assume y: "y \<in> set (scenarios ?st2)" and p: "in_cycle c y \<and> has_tag y t"
    from y have "y = ?b' \<or> y = ?a'
        \<or> (y \<in> set (scenarios st) \<and> scenario_id y \<noteq> scenario_id a)"
      unfolding set2 by blast
    moreover have "y \<noteq> ?a'"
      using p na by blast
    moreover have "\<not> (y \<in> set (scenarios st) \<and> scenario_id y \<noteq> scenario_id a)"
      using p only unfolding only_holder_def by blast
    ultimately show "y = ?b'" by blast
  qed
  have b_in: "?b' \<in> set (scenarios ?st2)"
    unfolding set2 by blast
  have new: "get_by_tag c t ?st2 = Some ?b'"
    unfolding get_by_tag_def get_all_by_cycle_def get_all_def find_filter_conj
  proof (rule find_unique)
    show "?b' \<in> set (scenarios ?st2)" by (rule b_in)
    show "in_cycle c ?b' \<and> has_tag ?b' t" using cb hb by simp
    show "\<forall>y \<in> set (scenarios ?st2). in_cycle c y \<and> has_tag y t \<longrightarrow> y = ?b'" by (rule uniq)
  qed
  show ?thesis
    using run ga gb na hb new by simp
qed

theorem tag_transfers_witness:
  "unique_ids two_in_week \<and> cycle scn_b = Some week_10 \<and> authorized scn_b ''fst''
   \<and> scn_a \<in> set (scenarios two_in_week) \<and> in_cycle week_10 scn_a \<and> has_tag scn_a ''fst''
   \<and> scenario_id scn_a \<noteq> scenario_id scn_b \<and> only_holder scn_a week_10 ''fst'' two_in_week
   \<and> get_scenario (scenario_id scn_a) (snd (tag scn_b ''fst'' two_in_week))
        = Some (remove_tag scn_a ''fst'')
   \<and> get_by_tag week_10 ''fst'' (snd (tag scn_b ''fst'' two_in_week))
        = Some (add_tag scn_b ''fst'')"
proof -
  have h1: "unique_ids two_in_week"
    by (simp add: unique_ids_def two_in_week_def scn_a_def scn_b_def)
  have h2: "cycle scn_b = Some week_10"
    by (simp add: scn_b_def)
  have h3: "authorized scn_b ''fst''"
    by (simp add: authorized_def scn_b_def two_tags_def)
  have h4: "scn_a \<in> set (scenarios two_in_week)"
    by (simp add: two_in_week_def)
  have h5: "in_cycle week_10 scn_a"
    by (simp add: in_cycle_def cycle_eq_def scn_a_def)
  have h6: "has_tag scn_a ''fst''"
    by (simp add: has_tag_def scn_a_def)
  have h7: "scenario_id scn_a \<noteq> scenario_id scn_b"
    by (simp add: scn_a_def scn_b_def)
  have "\<not> has_tag scn_b ''fst''"
    by (simp add: has_tag_def scn_b_def)
  then have h8: "only_holder scn_a week_10 ''fst'' two_in_week"
    by (simp add: only_holder_def two_in_week_def)
  show ?thesis
    using tag_transfers [OF h1 h2 h3 h4 h5 h6 h7 h8] h1 h2 h3 h4 h5 h6 h7 h8 by blast
qed

section \<open>Master election\<close>

text \<open>
  Claim C4. Electing a scenario without a cycle raises \<^verbatim>\<open>DoesNotBelongToACycle\<close> and changes
  nothing. Electing \<open>b\<close> of cycle \<open>c\<close> when another scenario \<open>a\<close> is the master of \<open>c\<close> (the
  one \<^verbatim>\<open>_get_master\<close> returns, and the only one, as the data model requires) succeeds,
  stores \<open>a\<close> with the flag cleared and then \<open>b\<close> with the flag set; afterwards the master
  of \<open>c\<close> is \<open>b\<close>.
\<close>

theorem set_master_replaces:
  "(cycle b = None \<longrightarrow> set_master b st = (Inl DoesNotBelongToACycle, st))
   \<and> (unique_ids st \<and> cycle b = Some c \<and> get_master c st = Some a
        \<and> scenario_id a \<noteq> scenario_id b \<and> only_master a c st
      \<longrightarrow> set_master b st
            = (Inr (), set_scenario (b\<lparr>is_master := True\<rparr>)
                         (set_scenario (a\<lparr>is_master := False\<rparr>) st))
        \<and> get_scenario (scenario_id a) (snd (set_master b st)) = Some (a\<lparr>is_master := False\<rparr>)
        \<and> get_scenario (scenario_id b) (snd (set_master b st)) = Some (b\<lparr>is_master := True\<rparr>)
        \<and> get_master c (snd (set_master b st)) = Some (b\<lparr>is_master := True\<rparr>))"
proof (intro conjI impI)
  assume "cycle b = None"
  then show "set_master b st = (Inl DoesNotBelongToACycle, st)"
    by (simp add: set_master_def)
next
  assume h: "unique_ids st \<and> cycle b = Some c \<and> get_master c st = Some a
        \<and> scenario_id a \<noteq> scenario_id b \<and> only_master a c st"
  let ?a' = "a\<lparr>is_master := False\<rparr>" and ?b' = "b\<lparr>is_master := True\<rparr>"
  let ?st1 = "set_scenario ?a' st"
  let ?st2 = "set_scenario ?b' ?st1"
  have run: "set_master b st = (Inr (), ?st2)"
    using h by (simp add: set_master_def)
  have ga: "get_scenario (scenario_id a) ?st2 = Some ?a'"
    using h get_set_other [of "scenario_id a" ?b' ?st1] get_set_same [of ?a' st]
    by simp
  have gb: "get_scenario (scenario_id b) ?st2 = Some ?b'"
    using get_set_same [of ?b' ?st1] by simp
  have set2: "set (scenarios ?st2) =
      insert ?b' {x \<in> insert ?a' {x \<in> set (scenarios st). scenario_id x \<noteq> scenario_id a}.
                   scenario_id x \<noteq> scenario_id b}"
    using h by (simp add: set_set_scenario unique_ids_set)
  have cb: "in_cycle c ?b'"
    using h by (simp add: in_cycle_def cycle_eq_def)
  have om: "\<forall>x \<in> set (scenarios st). in_cycle c x \<and> is_master x \<longrightarrow> x = a"
    using h unfolding only_master_def by blast
  have uniq: "\<forall>y \<in> set (scenarios ?st2). in_cycle c y \<and> is_master y \<longrightarrow> y = ?b'"
  proof (intro ballI impI)
    fix y
    assume y: "y \<in> set (scenarios ?st2)" and p: "in_cycle c y \<and> is_master y"
    from y have "y = ?b' \<or> y = ?a'
        \<or> (y \<in> set (scenarios st) \<and> scenario_id y \<noteq> scenario_id a)"
      unfolding set2 by blast
    moreover have "y \<noteq> ?a'"
      using p by auto
    moreover have "\<not> (y \<in> set (scenarios st) \<and> scenario_id y \<noteq> scenario_id a)"
      using p om by blast
    ultimately show "y = ?b'" by blast
  qed
  have b_in: "?b' \<in> set (scenarios ?st2)"
    unfolding set2 by blast
  have new: "get_master c ?st2 = Some ?b'"
    unfolding get_master_def get_all_by_cycle_def get_all_def find_filter_conj
  proof (rule find_unique)
    show "?b' \<in> set (scenarios ?st2)" by (rule b_in)
    show "in_cycle c ?b' \<and> is_master ?b'" using cb by simp
    show "\<forall>y \<in> set (scenarios ?st2). in_cycle c y \<and> is_master y \<longrightarrow> y = ?b'" by (rule uniq)
  qed
  show "set_master b st = (Inr (), ?st2)" by (rule run)
  show "get_scenario (scenario_id a) (snd (set_master b st)) = Some ?a'"
    using run ga by simp
  show "get_scenario (scenario_id b) (snd (set_master b st)) = Some ?b'"
    using run gb by simp
  show "get_master c (snd (set_master b st)) = Some ?b'"
    using run new by simp
qed

theorem set_master_replaces_witness:
  "cycle scn_x = None
   \<and> set_master scn_x two_without_cycle = (Inl DoesNotBelongToACycle, two_without_cycle)
   \<and> unique_ids two_in_week \<and> cycle scn_b = Some week_10
   \<and> get_master week_10 two_in_week = Some scn_a
   \<and> scenario_id scn_a \<noteq> scenario_id scn_b \<and> only_master scn_a week_10 two_in_week
   \<and> get_scenario (scenario_id scn_a) (snd (set_master scn_b two_in_week))
        = Some (scn_a\<lparr>is_master := False\<rparr>)
   \<and> get_scenario (scenario_id scn_b) (snd (set_master scn_b two_in_week))
        = Some (scn_b\<lparr>is_master := True\<rparr>)
   \<and> get_master week_10 (snd (set_master scn_b two_in_week)) = Some (scn_b\<lparr>is_master := True\<rparr>)"
proof -
  have h0: "cycle scn_x = None"
    by (simp add: scn_x_def)
  have h1: "unique_ids two_in_week"
    by (simp add: unique_ids_def two_in_week_def scn_a_def scn_b_def)
  have h2: "cycle scn_b = Some week_10"
    by (simp add: scn_b_def)
  have a_in: "in_cycle week_10 scn_a" "is_master scn_a"
    by (simp_all add: in_cycle_def cycle_eq_def scn_a_def)
  have h3: "get_master week_10 two_in_week = Some scn_a"
    using a_in by (simp add: get_master_def get_all_by_cycle_def get_all_def two_in_week_def)
  have h4: "scenario_id scn_a \<noteq> scenario_id scn_b"
    by (simp add: scn_a_def scn_b_def)
  have "\<not> is_master scn_b"
    by (simp add: scn_b_def)
  then have h5: "only_master scn_a week_10 two_in_week"
    by (simp add: only_master_def two_in_week_def)
  show ?thesis
    using set_master_replaces [of scn_x two_without_cycle week_10 scn_a]
      set_master_replaces [of scn_b two_in_week week_10 scn_a] h0 h1 h2 h3 h4 h5
    by blast
qed

section \<open>Comparison\<close>

lemma map_of_dict_set: "map_of (dict_set k v d) = (map_of d)(k \<mapsto> v)"
  by (induction d) (auto simp: fun_eq_iff)

lemma find_append_case:
  "find P (xs @ ys) = (case find P xs of None \<Rightarrow> find P ys | Some x \<Rightarrow> Some x)"
  by (induction xs) auto

lemma map_of_fold_dict_set:
  "map_of (fold (\<lambda>x d. dict_set (key x) (val x) d) xs d0) k =
     (case find (\<lambda>x. key x = k) (rev xs) of
        Some x \<Rightarrow> Some (val x)
      | None \<Rightarrow> map_of d0 k)"
proof (induction xs arbitrary: d0)
  case Nil
  then show ?case by simp
next
  case (Cons x xs)
  show ?case
    by (simp add: Cons.IH map_of_dict_set find_append_case split: option.splits)
qed

lemma compare_unfold:
  "compare cs rd scns dn =
     (if length scns < 2 then Inl InsufficientScenarioToCompare
      else if \<exists>s \<in> set scns. config_id s \<noteq> config_id (scns ! 0)
      then Inl DifferentScenarioConfigs
      else
        (case cs (config_id (scns ! 0)) of
           None \<Rightarrow> Inl (NonExistingScenarioConfig (config_id (scns ! 0)))
         | Some cfg \<Rightarrow>
             if truthy dn
             then (case map_of (comparators cfg) (the dn) of
                     None \<Rightarrow> Inl NonExistingComparator
                   | Some cmps \<Rightarrow> Inr [(the dn, compare_data_node rd scns (the dn) cmps)])
             else Inr (fold (\<lambda>(d, cmps) results.
                               dict_set d (compare_data_node rd scns d cmps) results)
                         (comparators cfg) [])))"
  by (auto simp: compare_def bind_result_def truthy_def list_all_iff
      split: option.splits)

lemma map_of_compare_data_node:
  "map_of (compare_data_node rd scns k cmps) n =
     map_option (\<lambda>c. comparator_fun c (map (\<lambda>s. rd s k) scns))
       (find (\<lambda>c. comparator_name c = n) (rev cmps))"
  unfolding compare_data_node_def Let_def
  by (simp add: map_of_fold_dict_set split: option.splits)

lemma map_of_compare_all:
  assumes "distinct (map fst kvs)"
  shows "map_of (fold (\<lambda>(d, cmps) results. dict_set d (g d cmps) results) kvs []) k =
     map_option (g k) (map_of kvs k)"
proof -
  have "(\<lambda>(d, cmps) results. dict_set d (g d cmps) results)
      = (\<lambda>x results. dict_set (fst x) (g (fst x) (snd x)) results)"
    by (simp add: fun_eq_iff split: prod.splits)
  then have "map_of (fold (\<lambda>(d, cmps) results. dict_set d (g d cmps) results) kvs []) k =
      (case find (\<lambda>x. fst x = k) (rev kvs) of
         Some x \<Rightarrow> Some (g (fst x) (snd x)) | None \<Rightarrow> None)"
    by (simp add: map_of_fold_dict_set split: option.splits)
  also have "\<dots> = map_option (g k) (map_of kvs k)"
  proof (cases "map_of kvs k")
    case None
    then have "k \<notin> fst ` set kvs"
      by (simp add: map_of_eq_None_iff)
    then have "find (\<lambda>x. fst x = k) (rev kvs) = None"
      by (force simp: find_None_iff)
    then show ?thesis using None by simp
  next
    case (Some v)
    then have mem: "(k, v) \<in> set kvs"
      by (rule map_of_SomeD)
    have "\<exists>x. x \<in> set (rev kvs) \<and> fst x = k"
      using mem by (intro exI [of _ "(k, v)"]) simp
    then have "find (\<lambda>x. fst x = k) (rev kvs) \<noteq> None"
      by (simp add: find_None_iff)
    then obtain x where x: "find (\<lambda>x. fst x = k) (rev kvs) = Some x"
      by blast
    then have "x \<in> set kvs \<and> fst x = k"
      unfolding find_Some_iff by (metis nth_mem set_rev)
    then have "x = (k, v)"
      using assms mem by (metis eq_key_imp_eq_value prod.collapse)
    then show ?thesis using x Some by simp
  qed
  finally show ?thesis .
qed

text \<open>
  Claim C7. Comparing raises \<^verbatim>\<open>InsufficientScenarioToCompare\<close> exactly when fewer than two
  scenarios are given; otherwise \<^verbatim>\<open>DifferentScenarioConfigs\<close> exactly when some scenario's
  \<^verbatim>\<open>config_id\<close> differs from the first one's; otherwise \<^verbatim>\<open>NonExistingScenarioConfig\<close> (with
  that id) exactly when the configuration store has no entry for it; otherwise, when a
  data node configuration id is given (an id that passes Python's truth test, that is,
  not the empty string), \<^verbatim>\<open>NonExistingComparator\<close> exactly when the configuration has no
  comparators under that id. In the remaining cases the result is the two-level
  dictionary: under the given id (or, when none is given, under every id of the
  configuration's comparators) the dictionary that maps each comparator name to the
  output of the comparator on the values read from the scenarios, in order; of two
  comparators with the same name the later one is kept.
\<close>

theorem compare_outcomes:
  "(compare cs rd scns dn = Inl InsufficientScenarioToCompare \<longleftrightarrow> length scns < 2)
   \<and> (2 \<le> length scns \<longrightarrow>
        (compare cs rd scns dn = Inl DifferentScenarioConfigs
           \<longleftrightarrow> (\<exists>s \<in> set scns. config_id s \<noteq> config_id (scns ! 0))))
   \<and> (2 \<le> length scns \<and> (\<forall>s \<in> set scns. config_id s = config_id (scns ! 0)) \<longrightarrow>
        ((\<exists>i. compare cs rd scns dn = Inl (NonExistingScenarioConfig i))
           \<longleftrightarrow> cs (config_id (scns ! 0)) = None)
        \<and> (cs (config_id (scns ! 0)) = None \<longrightarrow>
             compare cs rd scns dn = Inl (NonExistingScenarioConfig (config_id (scns ! 0)))))
   \<and> (2 \<le> length scns \<and> (\<forall>s \<in> set scns. config_id s = config_id (scns ! 0))
        \<and> cs (config_id (scns ! 0)) = Some cfg \<longrightarrow>
        (dn = Some d \<and> d \<noteq> [] \<longrightarrow>
           (compare cs rd scns dn = Inl NonExistingComparator
              \<longleftrightarrow> map_of (comparators cfg) d = None)
           \<and> (\<forall>cmps. map_of (comparators cfg) d = Some cmps \<longrightarrow>
                (\<exists>r. compare cs rd scns dn = Inr r
                   \<and> (\<forall>k. map_of r k = (if k = d then Some (compare_data_node rd scns d cmps)
                                          else None)))))
        \<and> (dn = None \<or> dn = Some [] \<longrightarrow>
             (\<exists>r. compare cs rd scns dn = Inr r
                \<and> (distinct (map fst (comparators cfg)) \<longrightarrow>
                     (\<forall>k. map_of r k
                        = map_option (compare_data_node rd scns k) (map_of (comparators cfg) k))))))
   \<and> (\<forall>k cmps n. map_of (compare_data_node rd scns k cmps) n
         = map_option (\<lambda>c. comparator_fun c (map (\<lambda>s. rd s k) scns))
             (find (\<lambda>c. comparator_name c = n) (rev cmps)))"
proof (intro conjI impI allI)
  show "compare cs rd scns dn = Inl InsufficientScenarioToCompare \<longleftrightarrow> length scns < 2"
    by (simp add: compare_unfold split: option.splits)
next
  assume "2 \<le> length scns"
  then show "compare cs rd scns dn = Inl DifferentScenarioConfigs
           \<longleftrightarrow> (\<exists>s \<in> set scns. config_id s \<noteq> config_id (scns ! 0))"
    by (simp add: compare_unfold split: option.splits)
next
  assume "2 \<le> length scns \<and> (\<forall>s \<in> set scns. config_id s = config_id (scns ! 0))"
  then show "(\<exists>i. compare cs rd scns dn = Inl (NonExistingScenarioConfig i))
           \<longleftrightarrow> cs (config_id (scns ! 0)) = None"
    by (simp add: compare_unfold split: option.splits)
next
  assume "2 \<le> length scns \<and> (\<forall>s \<in> set scns. config_id s = config_id (scns ! 0))"
    and "cs (config_id (scns ! 0)) = None"
  then show "compare cs rd scns dn = Inl (NonExistingScenarioConfig (config_id (scns ! 0)))"
    by (simp add: compare_unfold)
next
  assume "2 \<le> length scns \<and> (\<forall>s \<in> set scns. config_id s = config_id (scns ! 0))
        \<and> cs (config_id (scns ! 0)) = Some cfg" and "dn = Some d \<and> d \<noteq> []"
  then show "compare cs rd scns dn = Inl NonExistingComparator
              \<longleftrightarrow> map_of (comparators cfg) d = None"
    by (simp add: compare_unfold truthy_def split: option.splits)
next
  fix cmps
  assume "2 \<le> length scns \<and> (\<forall>s \<in> set scns. config_id s = config_id (scns ! 0))
        \<and> cs (config_id (scns ! 0)) = Some cfg" and "dn = Some d \<and> d \<noteq> []"
    and "map_of (comparators cfg) d = Some cmps"
  then have "compare cs rd scns dn = Inr [(d, compare_data_node rd scns d cmps)]"
    by (simp add: compare_unfold truthy_def)
  then show "\<exists>r. compare cs rd scns dn = Inr r
       \<and> (\<forall>k. map_of r k = (if k = d then Some (compare_data_node rd scns d cmps) else None))"
    by simp
next
  assume h: "2 \<le> length scns \<and> (\<forall>s \<in> set scns. config_id s = config_id (scns ! 0))
        \<and> cs (config_id (scns ! 0)) = Some cfg" and "dn = None \<or> dn = Some []"
  then have "\<not> truthy dn"
    by (auto simp: truthy_def)
  with h have "compare cs rd scns dn =
      Inr (fold (\<lambda>(d, cmps) results. dict_set d (compare_data_node rd scns d cmps) results)
             (comparators cfg) [])"
    by (simp add: compare_unfold)
  then show "\<exists>r. compare cs rd scns dn = Inr r
       \<and> (distinct (map fst (comparators cfg)) \<longrightarrow>
            (\<forall>k. map_of r k
               = map_option (compare_data_node rd scns k) (map_of (comparators cfg) k)))"
    by (simp add: map_of_compare_all)
next
  fix k cmps n
  show "map_of (compare_data_node rd scns k cmps) n
         = map_option (\<lambda>c. comparator_fun c (map (\<lambda>s. rd s k) scns))
             (find (\<lambda>c. comparator_name c = n) (rev cmps))"
    by (rule map_of_compare_data_node)
qed

theorem compare_outcomes_witness:
  "length [scn_a] < 2
   \<and> compare config_store read_sales [scn_a] None = Inl InsufficientScenarioToCompare
   \<and> 2 \<le> length [scn_a, scn_b]
   \<and> config_id scn_b = config_id scn_a
   \<and> config_store (config_id ([scn_a, scn_b] ! 0)) = Some sales_config
   \<and> map_of (comparators sales_config) ''costs'' = None
   \<and> compare config_store read_sales [scn_a, scn_b] (Some ''costs'') = Inl NonExistingComparator
   \<and> distinct (map fst (comparators sales_config))
   \<and> compare config_store read_sales [scn_a, scn_b] (Some ''sales'') \<noteq> Inl NonExistingComparator
   \<and> (\<exists>r. compare config_store read_sales [scn_a, scn_b] None = Inr r
        \<and> map_of r ''sales''
            = Some (compare_data_node read_sales [scn_a, scn_b] ''sales''
                      [total_comparator, count_comparator]))"
proof -
  have h1: "length [scn_a] < 2" and h2: "2 \<le> length [scn_a, scn_b]"
    by simp_all
  have h3: "\<forall>s \<in> set [scn_a, scn_b]. config_id s = config_id ([scn_a, scn_b] ! 0)"
    by (simp add: scn_a_def scn_b_def)
  have h4: "config_store (config_id ([scn_a, scn_b] ! 0)) = Some sales_config"
    by (simp add: config_store_def scn_a_def)
  have h5: "map_of (comparators sales_config) ''costs'' = None"
    and h6: "map_of (comparators sales_config) ''sales''
        = Some [total_comparator, count_comparator]"
    and h7: "distinct (map fst (comparators sales_config))"
    by (simp_all add: sales_config_def)
  have h6': "map_of (comparators sales_config) ''sales'' \<noteq> None"
    using h6 by simp
  have w1: "compare config_store read_sales [scn_a] None = Inl InsufficientScenarioToCompare"
    using compare_outcomes [of config_store read_sales "[scn_a]" None] h1 by blast
  have hyp: "2 \<le> length [scn_a, scn_b]
      \<and> (\<forall>s \<in> set [scn_a, scn_b]. config_id s = config_id ([scn_a, scn_b] ! 0))
      \<and> config_store (config_id ([scn_a, scn_b] ! 0)) = Some sales_config"
    using h2 h3 h4 by blast
  have given: "Some ''costs'' = Some ''costs'' \<and> ''costs'' \<noteq> []"
    "Some ''sales'' = Some ''sales'' \<and> ''sales'' \<noteq> []"
    by simp_all
  have w2: "compare config_store read_sales [scn_a, scn_b] (Some ''costs'')
      = Inl NonExistingComparator"
    using compare_outcomes [of config_store read_sales "[scn_a, scn_b]" "Some ''costs''"
        sales_config "''costs''"] hyp given(1) h5
    by blast
  have w3: "compare config_store read_sales [scn_a, scn_b] (Some ''sales'')
      \<noteq> Inl NonExistingComparator"
    using compare_outcomes [of config_store read_sales "[scn_a, scn_b]" "Some ''sales''"
        sales_config "''sales''"] hyp given(2) h6'
    by blast
  have "\<exists>r. compare config_store read_sales [scn_a, scn_b] None = Inr r
      \<and> (\<forall>k. map_of r k = map_option (compare_data_node read_sales [scn_a, scn_b] k)
                             (map_of (comparators sales_config) k))"
    using compare_outcomes [of config_store read_sales "[scn_a, scn_b]" None sales_config,
        THEN conjunct2, THEN conjunct2, THEN conjunct2, THEN conjunct1, rule_format,
        OF hyp, THEN conjunct2, rule_format, OF disjI1 [OF refl]] h7
    by blast
  then obtain r where r: "compare config_store read_sales [scn_a, scn_b] None = Inr r"
    and rk: "map_of r ''sales'' = map_option (compare_data_node read_sales [scn_a, scn_b] ''sales'')
                             (map_of (comparators sales_config) ''sales'')"
    by blast
  have w4: "\<exists>r. compare config_store read_sales [scn_a, scn_b] None = Inr r
        \<and> map_of r ''sales''
            = Some (compare_data_node read_sales [scn_a, scn_b] ''sales''
                      [total_comparator, count_comparator])"
    using r rk h6 by simp
  have h8: "config_id scn_b = config_id scn_a"
    by (simp add: scn_a_def scn_b_def)
  show ?thesis
    using h1 h2 h8 h4 h5 h7 w1 w2 w3 w4 by blast
qed

section \<open>The cycle repository\<close>

lemma filter_store_cycle_new:
  "filter P xs = [] \<Longrightarrow> P c \<Longrightarrow> filter P (store_cycle c xs) = [c]"
  by (induction xs) (auto split: if_splits)

lemma store_cycle_mem: "c \<in> set (store_cycle c xs)"
  by (induction xs) auto

lemma set_store_cycle:
  "distinct (map cycle_id xs) \<Longrightarrow>
     set (store_cycle c xs) = insert c {x \<in> set xs. cycle_id x \<noteq> cycle_id c}"
  by (induction xs) (auto simp: image_iff)

lemma distinct_store_cycle:
  "distinct (map cycle_id xs) \<Longrightarrow> distinct (map cycle_id (store_cycle c xs))"
  by (induction xs) (auto simp: set_store_cycle image_iff)

lemma get_or_create_found:
  assumes "get_start_date_of_cycle f t = Inr s"
    and "get_cycles_by_frequency_and_start_date f s st = c # cs"
  shows "cycle_manager_get_or_create new_id now f (Some t) dn st = (Inr c, st)"
  using assms by (simp add: cycle_manager_get_or_create_def)

lemma get_or_create_new:
  assumes "get_start_date_of_cycle f t = Inr s"
    and "get_cycles_by_frequency_and_start_date f s st = []"
    and "get_end_date_of_cycle f s = Inr e"
  shows "\<exists>c. cycle_manager_get_or_create new_id now f (Some t) dn st = (Inr c, set_cycle c st)
    \<and> cycle_id c = new_id \<and> cycle_frequency c = f \<and> start_date c = s \<and> end_date c = e"
  using assms by (simp add: cycle_manager_get_or_create_def cycle_manager_create_def Let_def)

lemma get_or_create_fails:
  assumes "get_start_date_of_cycle f t = Inr s"
    and "get_cycles_by_frequency_and_start_date f s st = []"
    and "get_end_date_of_cycle f s = Inl e"
  shows "cycle_manager_get_or_create new_id now f (Some t) dn st = (Inl e, st)"
  using assms by (simp add: cycle_manager_get_or_create_def cycle_manager_create_def Let_def)

lemma get_or_create_start_fails:
  assumes "get_start_date_of_cycle f t = Inl e"
  shows "cycle_manager_get_or_create new_id now f (Some t) dn st = (Inl e, st)"
  using assms by (simp add: cycle_manager_get_or_create_def)

lemma get_or_create_result:
  assumes "cycle_manager_get_or_create new_id now f (Some t) dn st = (Inr c, st')"
  shows "\<exists>s. get_start_date_of_cycle f t = Inr s \<and> cycle_frequency c = f \<and> start_date c = s
    \<and> (\<exists>cs. get_cycles_by_frequency_and_start_date f s st' = c # cs)
    \<and> ((st' = st \<and> c \<in> set (cycles st))
        \<or> (st' = set_cycle c st \<and> cycle_id c = new_id
            \<and> get_cycles_by_frequency_and_start_date f s st = []))"
proof (cases "get_start_date_of_cycle f t")
  case (Inl e)
  then show ?thesis
    using assms get_or_create_start_fails [OF Inl, of new_id now dn st] by simp
next
  case (Inr s)
  show ?thesis
  proof (cases "get_cycles_by_frequency_and_start_date f s st")
    case (Cons c0 cs)
    then have eq: "c = c0 \<and> st' = st"
      using assms get_or_create_found [OF Inr Cons, of new_id now dn] by simp
    have "c0 \<in> set (get_cycles_by_frequency_and_start_date f s st)"
      using Cons by simp
    then have "c0 \<in> set (cycles st) \<and> cycle_frequency c0 = f \<and> start_date c0 = s"
      by (simp add: get_cycles_by_frequency_and_start_date_def)
    then show ?thesis
      using eq Inr Cons by simp
  next
    case Nil
    show ?thesis
    proof (cases "get_end_date_of_cycle f s")
      case (Inl e)
      then show ?thesis
        using assms get_or_create_fails [OF Inr Nil Inl, of new_id now dn] by simp
    next
      case e: (Inr e)
      obtain c' where c': "cycle_manager_get_or_create new_id now f (Some t) dn st
            = (Inr c', set_cycle c' st)"
        "cycle_id c' = new_id" "cycle_frequency c' = f" "start_date c' = s"
        using get_or_create_new [OF Inr Nil e, of new_id now dn] by blast
      have eq: "c = c'" "st' = set_cycle c st"
        using assms c'(1) by auto
      have "get_cycles_by_frequency_and_start_date f s (set_cycle c st) = [c]"
        using Nil c'(3,4) eq(1)
        by (simp add: get_cycles_by_frequency_and_start_date_def set_cycle_def
            filter_store_cycle_new)
      then show ?thesis
        using eq c' Inr Nil by simp
    qed
  qed
qed

section \<open>The example week\<close>

lemma start_of_wednesday:
  "get_start_date_of_cycle WEEKLY wednesday_noon = Inr (at_midnight 2022 3 7)"
  by code_simp

lemma start_of_friday:
  "get_start_date_of_cycle WEEKLY friday_noon = Inr (at_midnight 2022 3 7)"
  by code_simp

lemma start_of_next_wednesday:
  "get_start_date_of_cycle WEEKLY next_wednesday = Inr (at_midnight 2022 3 14)"
  by code_simp

lemma end_of_week_10:
  "get_end_date_of_cycle WEEKLY (at_midnight 2022 3 7) = Inr (end_date week_10)"
  by code_simp

lemma end_of_week_11:
  "get_end_date_of_cycle WEEKLY (at_midnight 2022 3 14) = Inr (end_date week_11)"
  by code_simp

lemma isoformat_week_10: "isoformat (at_midnight 2022 3 7) = ''2022-03-07T00:00:00''"
  by code_simp

lemma isoformat_week_11: "isoformat (at_midnight 2022 3 14) = ''2022-03-14T00:00:00''"
  by code_simp

lemma create_week_11:
  "cycle_manager_get_or_create ''CYCLE_week_11'' wednesday_noon WEEKLY (Some next_wednesday) None
     two_in_week = (Inr week_11, two_in_week\<lparr>cycles := [week_10, week_11]\<rparr>)"
proof -
  have none: "get_cycles_by_frequency_and_start_date WEEKLY (at_midnight 2022 3 14) two_in_week = []"
    by (simp add: get_cycles_by_frequency_and_start_date_def two_in_week_def week_10_def
        at_midnight_def)
  show ?thesis
    by (simp add: cycle_manager_get_or_create_def cycle_manager_create_def
        start_of_next_wednesday none end_of_week_11 isoformat_week_11 set_cycle_def Let_def)
      (simp add: two_in_week_def week_10_def week_11_def)
qed

lemma find_week_10:
  "cycle_manager_get_or_create ''CYCLE_other'' friday_noon WEEKLY (Some wednesday_noon) None
     two_in_week = (Inr week_10, two_in_week)"
  by (simp add: cycle_manager_get_or_create_def start_of_wednesday
      get_cycles_by_frequency_and_start_date_def two_in_week_def week_10_def)

section \<open>One cycle per bucket\<close>

text \<open>
  Claim C9. When a first \<^verbatim>\<open>_get_or_create\<close> returns a cycle, a second one for the same
  frequency and an instant with the same bucket start returns that very cycle and
  stores nothing; for an instant with another bucket start it returns a cycle with
  another identity (in a repository with unique ids, the new ids being fresh). The first
  call returns a cycle whenever the two bucket computations succeed.
\<close>

theorem get_or_create_reuses_cycle:
  "(cycle_manager_get_or_create id1 now1 f (Some t1) dn1 st = (Inr c1, st1)
      \<and> get_start_date_of_cycle f t2 = get_start_date_of_cycle f t1
     \<longrightarrow> cycle_manager_get_or_create id2 now2 f (Some t2) dn2 st1 = (Inr c1, st1))
   \<and> (cycle_manager_get_or_create id1 now1 f (Some t1) dn1 st = (Inr c1, st1)
      \<and> cycle_manager_get_or_create id2 now2 f (Some t2) dn2 st1 = (Inr c2, st2)
      \<and> get_start_date_of_cycle f t2 \<noteq> get_start_date_of_cycle f t1
      \<and> unique_cycle_ids st \<and> id1 \<notin> cycle_id ` set (cycles st)
      \<and> id2 \<notin> cycle_id ` set (cycles st) \<and> id2 \<noteq> id1
     \<longrightarrow> cycle_id c2 \<noteq> cycle_id c1 \<and> start_date c2 \<noteq> start_date c1)
   \<and> ((\<exists>s e. get_start_date_of_cycle f t1 = Inr s \<and> get_end_date_of_cycle f s = Inr e)
     \<longrightarrow> (\<exists>c st'. cycle_manager_get_or_create id1 now1 f (Some t1) dn1 st = (Inr c, st')))"
proof -
  have same: "cycle_manager_get_or_create id1 now1 f (Some t1) dn1 st = (Inr c1, st1)
      \<and> get_start_date_of_cycle f t2 = get_start_date_of_cycle f t1
     \<longrightarrow> cycle_manager_get_or_create id2 now2 f (Some t2) dn2 st1 = (Inr c1, st1)"
  proof (intro impI)
    assume h: "cycle_manager_get_or_create id1 now1 f (Some t1) dn1 st = (Inr c1, st1)
        \<and> get_start_date_of_cycle f t2 = get_start_date_of_cycle f t1"
    then obtain s cs where s: "get_start_date_of_cycle f t1 = Inr s"
      and found: "get_cycles_by_frequency_and_start_date f s st1 = c1 # cs"
      using get_or_create_result [of id1 now1 f t1 dn1 st c1 st1] by blast
    have "get_start_date_of_cycle f t2 = Inr s"
      using h s by simp
    then show "cycle_manager_get_or_create id2 now2 f (Some t2) dn2 st1 = (Inr c1, st1)"
      using found by (rule get_or_create_found)
  qed
  have different: "cycle_manager_get_or_create id1 now1 f (Some t1) dn1 st = (Inr c1, st1)
      \<and> cycle_manager_get_or_create id2 now2 f (Some t2) dn2 st1 = (Inr c2, st2)
      \<and> get_start_date_of_cycle f t2 \<noteq> get_start_date_of_cycle f t1
      \<and> unique_cycle_ids st \<and> id1 \<notin> cycle_id ` set (cycles st)
      \<and> id2 \<notin> cycle_id ` set (cycles st) \<and> id2 \<noteq> id1
     \<longrightarrow> cycle_id c2 \<noteq> cycle_id c1 \<and> start_date c2 \<noteq> start_date c1"
  proof (intro impI)
    assume h: "cycle_manager_get_or_create id1 now1 f (Some t1) dn1 st = (Inr c1, st1)
        \<and> cycle_manager_get_or_create id2 now2 f (Some t2) dn2 st1 = (Inr c2, st2)
        \<and> get_start_date_of_cycle f t2 \<noteq> get_start_date_of_cycle f t1
        \<and> unique_cycle_ids st \<and> id1 \<notin> cycle_id ` set (cycles st)
        \<and> id2 \<notin> cycle_id ` set (cycles st) \<and> id2 \<noteq> id1"
    obtain s1 where s1: "get_start_date_of_cycle f t1 = Inr s1" "start_date c1 = s1"
      and first: "(st1 = st \<and> c1 \<in> set (cycles st))
          \<or> (st1 = set_cycle c1 st \<and> cycle_id c1 = id1)"
      using h get_or_create_result [of id1 now1 f t1 dn1 st c1 st1] by blast
    obtain s2 where s2: "get_start_date_of_cycle f t2 = Inr s2" "start_date c2 = s2"
      and second: "(st2 = st1 \<and> c2 \<in> set (cycles st1))
          \<or> (st2 = set_cycle c2 st1 \<and> cycle_id c2 = id2)"
      using h get_or_create_result [of id2 now2 f t2 dn2 st1 c2 st2] by blast
    have starts: "start_date c2 \<noteq> start_date c1"
      using h s1 s2 by auto
    have d: "distinct (map cycle_id (cycles st))"
      using h by (simp add: unique_cycle_ids_def)
    have ids1: "cycle_id ` set (cycles st1) \<subseteq> insert id1 (cycle_id ` set (cycles st))"
      using first d by (auto simp: set_cycle_def set_store_cycle)
    have c1_in: "c1 \<in> set (cycles st1)"
      using first by (auto simp: set_cycle_def store_cycle_mem)
    have d1: "distinct (map cycle_id (cycles st1))"
      using first d by (auto simp: set_cycle_def distinct_store_cycle)
    have "cycle_id c2 \<noteq> cycle_id c1"
      using second
    proof (elim disjE)
      assume "st2 = st1 \<and> c2 \<in> set (cycles st1)"
      then have "c2 \<in> set (cycles st1)" by simp
      moreover have "c2 \<noteq> c1" using starts by auto
      ultimately show ?thesis
        using c1_in d1 by (metis distinct_map inj_onD)
    next
      assume "st2 = set_cycle c2 st1 \<and> cycle_id c2 = id2"
      then have "cycle_id c2 = id2" by simp
      moreover have "cycle_id c1 \<in> insert id1 (cycle_id ` set (cycles st))"
        using c1_in ids1 by blast
      ultimately show ?thesis
        using h by auto
    qed
    then show "cycle_id c2 \<noteq> cycle_id c1 \<and> start_date c2 \<noteq> start_date c1"
      using starts by simp
  qed
  have returns: "(\<exists>s e. get_start_date_of_cycle f t1 = Inr s \<and> get_end_date_of_cycle f s = Inr e)
     \<longrightarrow> (\<exists>c st'. cycle_manager_get_or_create id1 now1 f (Some t1) dn1 st = (Inr c, st'))"
  proof (intro impI)
    assume "\<exists>s e. get_start_date_of_cycle f t1 = Inr s \<and> get_end_date_of_cycle f s = Inr e"
    then obtain s e where s: "get_start_date_of_cycle f t1 = Inr s"
      and e: "get_end_date_of_cycle f s = Inr e"
      by blast
    show "\<exists>c st'. cycle_manager_get_or_create id1 now1 f (Some t1) dn1 st = (Inr c, st')"
    proof (cases "get_cycles_by_frequency_and_start_date f s st")
      case Nil
      then show ?thesis
        using get_or_create_new [OF s Nil e, of id1 now1 dn1] by blast
    next
      case (Cons c cs)
      then show ?thesis
        using get_or_create_found [OF s Cons, of id1 now1 dn1] by blast
    qed
  qed
  show ?thesis
    using same different returns by blast
qed

theorem get_or_create_reuses_cycle_witness:
  "cycle_manager_get_or_create ''CYCLE_other'' friday_noon WEEKLY (Some wednesday_noon) None
       two_in_week = (Inr week_10, two_in_week)
   \<and> get_start_date_of_cycle WEEKLY friday_noon = get_start_date_of_cycle WEEKLY wednesday_noon
   \<and> cycle_manager_get_or_create ''CYCLE_again'' next_wednesday WEEKLY (Some friday_noon) None
       two_in_week = (Inr week_10, two_in_week)
   \<and> cycle_manager_get_or_create ''CYCLE_week_11'' wednesday_noon WEEKLY (Some next_wednesday)
       None two_in_week = (Inr week_11, two_in_week\<lparr>cycles := [week_10, week_11]\<rparr>)
   \<and> get_start_date_of_cycle WEEKLY next_wednesday
       \<noteq> get_start_date_of_cycle WEEKLY wednesday_noon
   \<and> unique_cycle_ids two_in_week
   \<and> ''CYCLE_other'' \<notin> cycle_id ` set (cycles two_in_week)
   \<and> ''CYCLE_week_11'' \<notin> cycle_id ` set (cycles two_in_week)
   \<and> ''CYCLE_week_11'' \<noteq> ''CYCLE_other''
   \<and> cycle_id week_11 \<noteq> cycle_id week_10
   \<and> (\<exists>s e. get_start_date_of_cycle WEEKLY wednesday_noon = Inr s
          \<and> get_end_date_of_cycle WEEKLY s = Inr e)"
proof -
  have same: "get_start_date_of_cycle WEEKLY friday_noon
      = get_start_date_of_cycle WEEKLY wednesday_noon"
    by (simp add: start_of_friday start_of_wednesday)
  have other: "get_start_date_of_cycle WEEKLY next_wednesday
      \<noteq> get_start_date_of_cycle WEEKLY wednesday_noon"
    by (simp add: start_of_next_wednesday start_of_wednesday at_midnight_def)
  have u: "unique_cycle_ids two_in_week"
    and fresh: "''CYCLE_other'' \<notin> cycle_id ` set (cycles two_in_week)"
      "''CYCLE_week_11'' \<notin> cycle_id ` set (cycles two_in_week)"
      "''CYCLE_week_11'' \<noteq> ''CYCLE_other''"
    by (simp_all add: unique_cycle_ids_def two_in_week_def week_10_def)
  have ex: "\<exists>s e. get_start_date_of_cycle WEEKLY wednesday_noon = Inr s
      \<and> get_end_date_of_cycle WEEKLY s = Inr e"
    using start_of_wednesday end_of_week_10 by blast
  have w1: "cycle_manager_get_or_create ''CYCLE_again'' next_wednesday WEEKLY (Some friday_noon)
      None two_in_week = (Inr week_10, two_in_week)"
    using get_or_create_reuses_cycle [of "''CYCLE_other''" friday_noon WEEKLY wednesday_noon
        None two_in_week week_10 two_in_week friday_noon "''CYCLE_again''" next_wednesday None,
        THEN conjunct1] find_week_10 same
    by blast
  have w2: "cycle_id week_11 \<noteq> cycle_id week_10"
    using get_or_create_reuses_cycle [of "''CYCLE_other''" friday_noon WEEKLY wednesday_noon
        None two_in_week week_10 two_in_week next_wednesday "''CYCLE_week_11''" wednesday_noon
        None week_11 "two_in_week\<lparr>cycles := [week_10, week_11]\<rparr>",
        THEN conjunct2, THEN conjunct1] find_week_10 create_week_11 other u fresh
    by blast
  show ?thesis
    using find_week_10 create_week_11 same other u fresh ex w1 w2 by blast
qed

section \<open>Creation\<close>

lemma get_or_create_instant:
  "cycle_manager_get_or_create i now f cr dn st
     = cycle_manager_get_or_create i now f (Some (case cr of Some d \<Rightarrow> d | None \<Rightarrow> now)) dn st"
  by (cases cr) (simp_all add: cycle_manager_get_or_create_def)

lemma get_or_create_scenarios:
  "scenarios (snd (cycle_manager_get_or_create i now f cr dn st)) = scenarios st"
  by (simp add: cycle_manager_get_or_create_def cycle_manager_create_def set_cycle_def Let_def
      split: sum.splits list.splits)

lemma get_all_by_cycle_scenarios:
  "scenarios st1 = scenarios st \<Longrightarrow> get_all_by_cycle c st1 = get_all_by_cycle c st"
  by (simp add: get_all_by_cycle_def get_all_def)

lemma get_cycles_cycles:
  "cycles st1 = cycles st \<Longrightarrow>
     get_cycles_by_frequency_and_start_date f s st1 = get_cycles_by_frequency_and_start_date f s st"
  by (simp add: get_cycles_by_frequency_and_start_date_def)

lemma store_mem: "s \<in> set (store s xs)"
  by (induction xs) auto

lemma create_with_cycle:
  assumes "cfg_frequency config = Some f"
    and "cycle_manager_get_or_create cid now f cr None st = (Inr c, st1)"
  shows "\<exists>s. create pm sid cid now config cr dn st = (Inr s, set_scenario s st1)
    \<and> scenario_id s = sid \<and> cycle s = Some c
    \<and> (is_master s \<longleftrightarrow> get_all_by_cycle c st1 = [])"
  using assms by (simp add: create_def Let_def)

lemma create_cycle_fails:
  assumes "cfg_frequency config = Some f"
    and "cycle_manager_get_or_create cid now f cr None st = (Inl e, st1)"
  shows "create pm sid cid now config cr dn st = (Inl e, st1)"
  using assms by (simp add: create_def Let_def)

lemma create_result:
  assumes f: "cfg_frequency config = Some f"
    and run: "create pm sid cid now config cr dn st = (Inr s, st')"
  shows "\<exists>c st1. cycle_manager_get_or_create cid now f cr None st = (Inr c, st1)
    \<and> st' = set_scenario s st1 \<and> scenario_id s = sid \<and> cycle s = Some c
    \<and> (is_master s \<longleftrightarrow> get_all_by_cycle c st = [])"
proof -
  obtain r st1 where g: "cycle_manager_get_or_create cid now f cr None st = (r, st1)"
    by (cases "cycle_manager_get_or_create cid now f cr None st") blast
  show ?thesis
  proof (cases r)
    case (Inl e)
    then show ?thesis
      using run create_cycle_fails [OF f, of cid now cr st e st1 pm sid dn] g by simp
  next
    case (Inr c)
    then have g': "cycle_manager_get_or_create cid now f cr None st = (Inr c, st1)"
      using g by simp
    obtain s0 where s0: "create pm sid cid now config cr dn st = (Inr s0, set_scenario s0 st1)"
      "scenario_id s0 = sid" "cycle s0 = Some c"
      "is_master s0 \<longleftrightarrow> get_all_by_cycle c st1 = []"
      using create_with_cycle [OF f g', of pm sid dn] by blast
    have eq: "s0 = s" "st' = set_scenario s0 st1"
      using run s0(1) by auto
    have "scenarios st1 = scenarios st"
      using get_or_create_scenarios [of cid now f cr None st] g' by simp
    then have "get_all_by_cycle c st1 = get_all_by_cycle c st"
      by (rule get_all_by_cycle_scenarios)
    then show ?thesis
      using g' s0 eq by auto
  qed
qed

text \<open>
  Claim C5. For a configuration with a frequency, a creation that returns a scenario has
  set its master flag exactly when no stored scenario belonged to the owning cycle at
  that time, and has stored the scenario. In particular the scenario created in a cycle
  that did not exist before (no cycle stored for that bucket, the new cycle id not yet
  referred to) is master, and a following creation, for the same frequency and an
  instant of the same bucket, returns a scenario of the same cycle that is not master.
\<close>

theorem create_elects_first:
  "(cfg_frequency config = Some f \<and> create pm sid cid now config cr dn st = (Inr s, st')
      \<longrightarrow> (\<exists>c. cycle s = Some c \<and> (is_master s \<longleftrightarrow> get_all_by_cycle c st = []))
        \<and> get_scenario sid st' = Some s)
   \<and> (cfg_frequency config = Some f \<and> create pm sid cid now config cr dn st = (Inr s, st')
        \<and> get_start_date_of_cycle f (case cr of Some d \<Rightarrow> d | None \<Rightarrow> now) = Inr start
        \<and> get_cycles_by_frequency_and_start_date f start st = []
        \<and> (\<forall>x \<in> set (scenarios st). \<forall>c'. cycle x = Some c' \<longrightarrow> cycle_id c' \<noteq> cid)
      \<longrightarrow> is_master s)
   \<and> (cfg_frequency config = Some f \<and> create pm sid cid now config cr dn st = (Inr s, st')
        \<and> cfg_frequency config2 = Some f
        \<and> get_start_date_of_cycle f (case cr2 of Some d \<Rightarrow> d | None \<Rightarrow> now2)
            = get_start_date_of_cycle f (case cr of Some d \<Rightarrow> d | None \<Rightarrow> now)
      \<longrightarrow> (\<exists>s2 st2. create pm2 sid2 cid2 now2 config2 cr2 dn2 st' = (Inr s2, st2)
             \<and> cycle s2 = cycle s \<and> \<not> is_master s2))"
proof -
  let ?t = "case cr of Some d \<Rightarrow> d | None \<Rightarrow> now"
  let ?t2 = "case cr2 of Some d \<Rightarrow> d | None \<Rightarrow> now2"
  have iff: "cfg_frequency config = Some f \<and> create pm sid cid now config cr dn st = (Inr s, st')
      \<longrightarrow> (\<exists>c. cycle s = Some c \<and> (is_master s \<longleftrightarrow> get_all_by_cycle c st = []))
        \<and> get_scenario sid st' = Some s"
  proof (intro impI)
    assume h: "cfg_frequency config = Some f
        \<and> create pm sid cid now config cr dn st = (Inr s, st')"
    then obtain c st1 where r: "st' = set_scenario s st1" "scenario_id s = sid"
      "cycle s = Some c" "is_master s \<longleftrightarrow> get_all_by_cycle c st = []"
      using create_result [of config f pm sid cid now cr dn st s st'] by blast
    have "get_scenario sid st' = Some s"
      using r(1,2) get_set_same [of s st1] by simp
    then show "(\<exists>c. cycle s = Some c \<and> (is_master s \<longleftrightarrow> get_all_by_cycle c st = []))
        \<and> get_scenario sid st' = Some s"
      using r(3,4) by blast
  qed
  have fresh: "cfg_frequency config = Some f
        \<and> create pm sid cid now config cr dn st = (Inr s, st')
        \<and> get_start_date_of_cycle f ?t = Inr start
        \<and> get_cycles_by_frequency_and_start_date f start st = []
        \<and> (\<forall>x \<in> set (scenarios st). \<forall>c'. cycle x = Some c' \<longrightarrow> cycle_id c' \<noteq> cid)
      \<longrightarrow> is_master s"
  proof (intro impI)
    assume h: "cfg_frequency config = Some f
        \<and> create pm sid cid now config cr dn st = (Inr s, st')
        \<and> get_start_date_of_cycle f ?t = Inr start
        \<and> get_cycles_by_frequency_and_start_date f start st = []
        \<and> (\<forall>x \<in> set (scenarios st). \<forall>c'. cycle x = Some c' \<longrightarrow> cycle_id c' \<noteq> cid)"
    then obtain c st1 where g: "cycle_manager_get_or_create cid now f cr None st = (Inr c, st1)"
      and m: "is_master s \<longleftrightarrow> get_all_by_cycle c st = []"
      using create_result [of config f pm sid cid now cr dn st s st'] by blast
    have g': "cycle_manager_get_or_create cid now f (Some ?t) None st = (Inr c, st1)"
      using g get_or_create_instant [of cid now f cr None st] by simp
    obtain s1 where s1: "get_start_date_of_cycle f ?t = Inr s1"
      and alt: "(st1 = st \<and> (\<exists>cs. get_cycles_by_frequency_and_start_date f s1 st1 = c # cs))
        \<or> cycle_id c = cid"
      using get_or_create_result [OF g'] by blast
    have "s1 = start"
      using s1 h by simp
    then have "cycle_id c = cid"
      using alt h by auto
    then have "\<forall>x \<in> set (scenarios st). \<not> in_cycle c x"
      using h by (auto simp: in_cycle_def cycle_eq_def split: option.splits)
    then have "get_all_by_cycle c st = []"
      by (simp add: get_all_by_cycle_def get_all_def)
    then show "is_master s"
      using m by simp
  qed
  have second: "cfg_frequency config = Some f
        \<and> create pm sid cid now config cr dn st = (Inr s, st')
        \<and> cfg_frequency config2 = Some f
        \<and> get_start_date_of_cycle f ?t2 = get_start_date_of_cycle f ?t
      \<longrightarrow> (\<exists>s2 st2. create pm2 sid2 cid2 now2 config2 cr2 dn2 st' = (Inr s2, st2)
             \<and> cycle s2 = cycle s \<and> \<not> is_master s2)"
  proof (intro impI)
    assume h: "cfg_frequency config = Some f
        \<and> create pm sid cid now config cr dn st = (Inr s, st')
        \<and> cfg_frequency config2 = Some f
        \<and> get_start_date_of_cycle f ?t2 = get_start_date_of_cycle f ?t"
    then obtain c st1 where g: "cycle_manager_get_or_create cid now f cr None st = (Inr c, st1)"
      and r: "st' = set_scenario s st1" "cycle s = Some c"
      using create_result [of config f pm sid cid now cr dn st s st'] by blast
    have g': "cycle_manager_get_or_create cid now f (Some ?t) None st = (Inr c, st1)"
      using g get_or_create_instant [of cid now f cr None st] by simp
    obtain s1 cs where s1: "get_start_date_of_cycle f ?t = Inr s1"
      and found: "get_cycles_by_frequency_and_start_date f s1 st1 = c # cs"
      using get_or_create_result [OF g'] by blast
    have "cycles st' = cycles st1"
      using r(1) by (simp add: set_scenario_def)
    then have found': "get_cycles_by_frequency_and_start_date f s1 st' = c # cs"
      using found get_cycles_cycles [of st' st1 f s1] by simp
    have "get_start_date_of_cycle f ?t2 = Inr s1"
      using h s1 by simp
    then have "cycle_manager_get_or_create cid2 now2 f (Some ?t2) None st' = (Inr c, st')"
      using found' by (rule get_or_create_found)
    then have g2: "cycle_manager_get_or_create cid2 now2 f cr2 None st' = (Inr c, st')"
      using get_or_create_instant [of cid2 now2 f cr2 None st'] by simp
    have f2: "cfg_frequency config2 = Some f"
      using h by simp
    obtain s2 where s2: "create pm2 sid2 cid2 now2 config2 cr2 dn2 st'
          = (Inr s2, set_scenario s2 st')"
      "cycle s2 = Some c" "is_master s2 \<longleftrightarrow> get_all_by_cycle c st' = []"
      using create_with_cycle [OF f2 g2, of pm2 sid2 dn2] by blast
    have "s \<in> set (scenarios st')"
      using r(1) by (simp add: set_scenario_def store_mem)
    moreover have "in_cycle c s"
      using r(2) by (simp add: in_cycle_def cycle_eq_def)
    ultimately have "s \<in> set (get_all_by_cycle c st')"
      by (simp add: get_all_by_cycle_def get_all_def)
    then have "get_all_by_cycle c st' \<noteq> []"
      by auto
    then show "\<exists>s2 st2. create pm2 sid2 cid2 now2 config2 cr2 dn2 st' = (Inr s2, st2)
             \<and> cycle s2 = cycle s \<and> \<not> is_master s2"
      using s2 r(2) by auto
  qed
  show ?thesis
    using iff fresh second by blast
qed

lemma first_create_run:
  "create pipelines_of_scenario ''SCENARIO_1'' ''CYCLE_week_10'' friday_noon sales_config
     (Some wednesday_noon) None init_state
   = (Inr first_created,
      \<lparr>scenarios = [first_created], cycles = [week_10], pipeline_hard_deletes = []\<rparr>)"
proof -
  have none: "get_cycles_by_frequency_and_start_date WEEKLY (at_midnight 2022 3 7) init_state = []"
    by (simp add: get_cycles_by_frequency_and_start_date_def init_state_def)
  have cyc: "cycle_manager_get_or_create ''CYCLE_week_10'' friday_noon WEEKLY
      (Some wednesday_noon) None init_state
    = (Inr week_10, \<lparr>scenarios = [], cycles = [week_10], pipeline_hard_deletes = []\<rparr>)"
    by (simp add: cycle_manager_get_or_create_def cycle_manager_create_def Let_def
        start_of_wednesday none end_of_week_10 isoformat_week_10 set_cycle_def)
      (simp add: init_state_def week_10_def)
  have empty: "get_all_by_cycle week_10
      \<lparr>scenarios = [], cycles = [week_10], pipeline_hard_deletes = []\<rparr> = []"
    by (simp add: get_all_by_cycle_def get_all_def)
  show ?thesis
    by (simp add: create_def Let_def cyc empty truthy_def sales_config_def
        pipelines_of_scenario_def first_created_def set_scenario_def)
qed

theorem create_elects_first_witness:
  "cfg_frequency sales_config = Some WEEKLY
   \<and> create pipelines_of_scenario ''SCENARIO_1'' ''CYCLE_week_10'' friday_noon sales_config
        (Some wednesday_noon) None init_state
      = (Inr first_created,
         \<lparr>scenarios = [first_created], cycles = [week_10], pipeline_hard_deletes = []\<rparr>)
   \<and> get_start_date_of_cycle WEEKLY wednesday_noon = Inr (at_midnight 2022 3 7)
   \<and> get_cycles_by_frequency_and_start_date WEEKLY (at_midnight 2022 3 7) init_state = []
   \<and> scenarios init_state = []
   \<and> get_start_date_of_cycle WEEKLY friday_noon = get_start_date_of_cycle WEEKLY wednesday_noon
   \<and> is_master first_created
   \<and> get_all_by_cycle week_10 init_state = []
   \<and> (\<exists>s2 st2. create pipelines_of_scenario ''SCENARIO_2'' ''CYCLE_unused'' next_wednesday
          sales_config (Some friday_noon) None
          \<lparr>scenarios = [first_created], cycles = [week_10], pipeline_hard_deletes = []\<rparr>
        = (Inr s2, st2) \<and> cycle s2 = cycle first_created \<and> \<not> is_master s2)"
proof -
  have h1: "cfg_frequency sales_config = Some WEEKLY"
    by (simp add: sales_config_def)
  have h2: "get_cycles_by_frequency_and_start_date WEEKLY (at_midnight 2022 3 7) init_state = []"
    and h3: "\<forall>x \<in> set (scenarios init_state). \<forall>c'. cycle x = Some c' \<longrightarrow> cycle_id c' \<noteq> ''CYCLE_week_10''"
    and h4: "get_all_by_cycle week_10 init_state = []"
    by (simp_all add: get_cycles_by_frequency_and_start_date_def init_state_def
        get_all_by_cycle_def get_all_def)
  have h5: "get_start_date_of_cycle WEEKLY (case Some wednesday_noon of Some d \<Rightarrow> d | None \<Rightarrow> friday_noon)
      = Inr (at_midnight 2022 3 7)"
    by (simp add: start_of_wednesday)
  have h6: "get_start_date_of_cycle WEEKLY (case Some friday_noon of Some d \<Rightarrow> d | None \<Rightarrow> next_wednesday)
      = get_start_date_of_cycle WEEKLY
          (case Some wednesday_noon of Some d \<Rightarrow> d | None \<Rightarrow> friday_noon)"
    by (simp add: start_of_wednesday start_of_friday)
  note inst = create_elects_first [of sales_config WEEKLY pipelines_of_scenario "''SCENARIO_1''"
      "''CYCLE_week_10''" friday_noon "Some wednesday_noon" None init_state first_created
      "\<lparr>scenarios = [first_created], cycles = [week_10], pipeline_hard_deletes = []\<rparr>"
      "at_midnight 2022 3 7" sales_config next_wednesday "Some friday_noon"
      pipelines_of_scenario "''SCENARIO_2''" "''CYCLE_unused''" None]
  have w1: "is_master first_created"
    using inst [THEN conjunct2, THEN conjunct1] h1 first_create_run h5 h2 h3 by blast
  have w2: "\<exists>s2 st2. create pipelines_of_scenario ''SCENARIO_2'' ''CYCLE_unused'' next_wednesday
          sales_config (Some friday_noon) None
          \<lparr>scenarios = [first_created], cycles = [week_10], pipeline_hard_deletes = []\<rparr>
        = (Inr s2, st2) \<and> cycle s2 = cycle first_created \<and> \<not> is_master s2"
    using inst [THEN conjunct2, THEN conjunct2] h1 first_create_run h6 by blast
  have h7: "get_start_date_of_cycle WEEKLY friday_noon = get_start_date_of_cycle WEEKLY wednesday_noon"
    by (simp add: start_of_wednesday start_of_friday)
  have h8: "scenarios init_state = []"
    by (simp add: init_state_def)
  show ?thesis
    using h1 first_create_run start_of_wednesday h2 h8 h4 h7 w1 w2 by blast
qed

section \<open>The master invariant\<close>

















































section \<open>Bucket start and bucket end\<close>

lemma valid_date_calendar: "valid_date d \<longleftrightarrow> calendar_date d \<and> year d \<le> 9999"
  by (auto simp: valid_date_def calendar_date_def)

lemma div_step:
  fixes y c :: int
  assumes c: "0 < c"
  shows "y div c = (y - 1) div c + (if y mod c = 0 then 1 else 0)"
proof (cases "y mod c = 0")
  case True
  have "y = c * (y div c)"
    using mult_div_mod_eq [of c y] True by simp
  then have "y - 1 = c * (y div c - 1) + (c - 1)"
    by (simp add: algebra_simps)
  then have "(y - 1) div c = y div c - 1"
    using c by (intro int_div_pos_eq [where r = "c - 1"]) simp_all
  then show ?thesis
    using True by simp
next
  case False
  have r0: "0 \<le> y mod c" "y mod c < c"
    using c by simp_all
  have r: "0 \<le> y mod c - 1" "y mod c - 1 < c"
    using r0 False by linarith+
  have "y = c * (y div c) + y mod c"
    using mult_div_mod_eq [of c y] by simp
  then have "y - 1 = c * (y div c) + (y mod c - 1)"
    by simp
  then have "(y - 1) div c = y div c"
    using r by (intro int_div_pos_eq [where r = "y mod c - 1"])
  then show ?thesis
    using False by simp
qed

lemma mod_100_4: "(y::int) mod 100 = 0 \<Longrightarrow> y mod 4 = 0"
proof -
  assume "y mod 100 = 0"
  then have "100 dvd y"
    by (simp add: mod_eq_0_iff_dvd)
  moreover have "(4::int) dvd 100"
    by simp
  ultimately have "4 dvd y"
    using dvd_trans by blast
  then show ?thesis
    by (simp add: mod_eq_0_iff_dvd)
qed

lemma mod_400_100: "(y::int) mod 400 = 0 \<Longrightarrow> y mod 100 = 0"
proof -
  assume "y mod 400 = 0"
  then have "400 dvd y"
    by (simp add: mod_eq_0_iff_dvd)
  moreover have "(100::int) dvd 400"
    by simp
  ultimately have "100 dvd y"
    using dvd_trans by blast
  then show ?thesis
    by (simp add: mod_eq_0_iff_dvd)
qed

lemma days_before_year_Suc:
  "days_before_year (y + 1) = days_before_year y + (if is_leap y then 366 else 365)"
proof -
  define d4 d100 d400 :: int where "d4 = (if y mod 4 = 0 then 1 else 0)"
    and "d100 = (if y mod 100 = 0 then 1 else 0)"
    and "d400 = (if y mod 400 = 0 then 1 else 0)"
  have s: "y div 4 = (y - 1) div 4 + d4" "y div 100 = (y - 1) div 100 + d100"
    "y div 400 = (y - 1) div 400 + d400"
    unfolding d4_def d100_def d400_def
    by (rule div_step, simp)+
  have a: "days_before_year (y + 1) = y * 365 + y div 4 - y div 100 + y div 400"
    by (simp add: days_before_year_def)
  have b: "days_before_year y
      = (y - 1) * 365 + (y - 1) div 4 - (y - 1) div 100 + (y - 1) div 400"
    by (simp add: days_before_year_def)
  have c: "(y - 1) * 365 = y * 365 - 365"
    by (simp add: algebra_simps)
  have "days_before_year (y + 1) = days_before_year y + 365 + d4 - d100 + d400"
    unfolding a b c s by linarith
  moreover have "d4 - d100 + d400 = (if is_leap y then 1 else 0)"
  proof (cases "y mod 4 = 0")
    case False
    then have n100: "y mod 100 \<noteq> 0"
      using mod_100_4 [of y] by auto
    then have "y mod 400 \<noteq> 0"
      using mod_400_100 [of y] by auto
    with n100 show ?thesis
      using False by (simp add: d4_def d100_def d400_def is_leap_def)
  next
    case True
    show ?thesis
    proof (cases "y mod 100 = 0")
      case False
      then have "y mod 400 \<noteq> 0"
        using mod_400_100 [of y] by auto
      then show ?thesis
        using True False by (simp add: d4_def d100_def d400_def is_leap_def)
    next
      case y100: True
      show ?thesis
        using True y100 by (simp add: d4_def d100_def d400_def is_leap_def)
    qed
  qed
  ultimately show ?thesis
    by (simp split: if_splits)
qed

lemma days_before_year_less: "days_before_year y < days_before_year (y + 1)"
  by (simp add: days_before_year_Suc)

lemma days_before_year_mono: "y \<le> y' \<Longrightarrow> days_before_year y \<le> days_before_year y'"
proof (induction y' rule: int_ge_induct)
  case base
  show ?case by simp
next
  case (step i)
  then show ?case
    using days_before_year_less [of i] by simp
qed

lemma days_before_year_start:
  assumes "1 \<le> n"
  shows "days_before_year (n div 366 + 1) < n"
proof -
  define k where "k = n div 366"
  have k: "0 \<le> k" "k * 366 \<le> n"
    using assms by (simp_all add: k_def)
  have a: "k div 400 \<le> k div 100"
    using k(1) by (intro zdiv_mono2) simp_all
  have b: "k div 4 \<le> k"
    using k(1) by (simp add: div_le_dividend [of "nat k" 4] zdiv_int [symmetric] flip: nat_le_iff)
  have c: "k = 0 \<or> k div 4 < k"
    using k(1) by (cases "k = 0") (simp_all add: int_div_less_self)
  have "days_before_year (k + 1) = k * 365 + k div 4 - k div 100 + k div 400"
    by (simp add: days_before_year_def)
  then show ?thesis
    unfolding k_def [symmetric] using k a c assms by linarith
qed

lemma year_of_ordinal_bounds:
  "days_before_year y < n \<Longrightarrow>
     days_before_year (year_of_ordinal y n) < n \<and> n \<le> days_before_year (year_of_ordinal y n + 1)"
proof (induction y n rule: year_of_ordinal.induct)
  case (1 y n)
  show ?case
  proof (cases "days_before_year (y + 1) < n")
    case True
    then show ?thesis
      using "1.IH" by (subst (1 2) year_of_ordinal.simps) simp
  next
    case False
    then show ?thesis
      using "1.prems" by (subst (1 2) year_of_ordinal.simps) simp
  qed
qed

lemma year_unique:
  assumes "days_before_year y < n" "n \<le> days_before_year (y + 1)"
    and "days_before_year y' < n" "n \<le> days_before_year (y' + 1)"
  shows "y = y'"
proof (rule ccontr)
  assume "y \<noteq> y'"
  then consider "y + 1 \<le> y'" | "y' + 1 \<le> y"
    by linarith
  then show False
  proof cases
    case 1
    then show False
      using days_before_year_mono [OF 1] assms by linarith
  next
    case 2
    then show False
      using days_before_year_mono [OF 2] assms by linarith
  qed
qed

lemma month_cases:
  assumes "1 \<le> m" "m \<le> (12::int)"
  shows "m = 1 \<or> m = 2 \<or> m = 3 \<or> m = 4 \<or> m = 5 \<or> m = 6 \<or> m = 7 \<or> m = 8 \<or> m = 9
    \<or> m = 10 \<or> m = 11 \<or> m = 12"
  using assms by presburger

lemma days_before_month_next:
  assumes "1 \<le> m" "m < 12"
  shows "days_before_month y (m + 1) = days_before_month y m + days_in_month y m"
proof -
  have "m = 1 \<or> m = 2 \<or> m = 3 \<or> m = 4 \<or> m = 5 \<or> m = 6 \<or> m = 7 \<or> m = 8 \<or> m = 9
    \<or> m = 10 \<or> m = 11"
    using assms by presburger
  then show ?thesis
    by (elim disjE) (simp_all add: days_before_month_def days_in_month_def)
qed

lemma days_before_month_first: "days_before_month y 1 = 0"
  by (simp add: days_before_month_def)

lemma days_before_month_last:
  "days_before_month y 12 + 31 = (if is_leap y then 366 else 365)"
  by (simp add: days_before_month_def)

lemma days_before_month_bounds:
  assumes "1 \<le> m" "m \<le> 12"
  shows "0 \<le> days_before_month y m
    \<and> days_before_month y m + days_in_month y m \<le> (if is_leap y then 366 else 365)"
  using month_cases [OF assms]
  by (elim disjE) (simp_all add: days_before_month_def days_in_month_def)

lemma days_in_month_pos: "1 \<le> days_in_month y m"
  by (simp add: days_in_month_def)

lemma toordinal_year_bounds:
  assumes "calendar_date d"
  shows "days_before_year (year d) < toordinal d"
    and "toordinal d \<le> days_before_year (year d + 1)"
proof -
  have m: "1 \<le> month d" "month d \<le> 12" and dd: "1 \<le> day d"
    "day d \<le> days_in_month (year d) (month d)"
    using assms by (simp_all add: calendar_date_def)
  note b = days_before_month_bounds [OF m, of "year d"]
  show "days_before_year (year d) < toordinal d"
    using b dd(1) by (simp add: toordinal_def)
  show "toordinal d \<le> days_before_year (year d + 1)"
    using b dd(2) by (simp add: toordinal_def days_before_year_Suc split: if_splits)
qed

lemma toordinal_pos: "calendar_date d \<Longrightarrow> 1 \<le> toordinal d"
proof -
  assume c: "calendar_date d"
  then have "1 \<le> year d"
    by (simp add: calendar_date_def)
  then have "days_before_year 1 \<le> days_before_year (year d)"
    by (rule days_before_year_mono)
  then show ?thesis
    using toordinal_year_bounds(1) [OF c] by (simp add: days_before_year_def)
qed

lemma year_of_toordinal:
  assumes "calendar_date d"
  shows "year_of_ordinal (toordinal d div 366 + 1) (toordinal d) = year d"
proof -
  note n = toordinal_pos [OF assms]
  note yb = year_of_ordinal_bounds [OF days_before_year_start [OF n]]
  show ?thesis
    using year_unique [OF yb [THEN conjunct1] yb [THEN conjunct2]
        toordinal_year_bounds [OF assms]] .
qed

lemma div_ge:
  fixes a c q :: int
  assumes "0 < c" "c * q \<le> a"
  shows "q \<le> a div c"
proof -
  have "(c * q) div c \<le> a div c"
    using assms by (intro zdiv_mono1)
  then show ?thesis
    using assms(1) by simp
qed

lemma div_lt:
  fixes a c q :: int
  assumes "0 < c" "a < c * q"
  shows "a div c < q"
proof -
  have "a \<le> c * q - 1"
    using assms(2) by simp
  then have "a div c \<le> (c * q - 1) div c"
    using assms(1) by (intro zdiv_mono1)
  moreover have "(c * q - 1) div c = q - 1"
    using assms(1) by (intro int_div_pos_eq [where r = "c - 1"]) (simp_all add: algebra_simps)
  ultimately show ?thesis
    by simp
qed

lemma month_estimate:
  assumes "1 \<le> m" "m \<le> 12" "1 \<le> dd" "dd \<le> days_in_month y m"
  shows "(days_before_month y m + dd - 1 + 50) div 32 = m
    \<or> ((days_before_month y m + dd - 1 + 50) div 32 = m + 1 \<and> m < 12)"
proof -
  define e where "e = (days_before_month y m + dd - 1 + 50) div 32"
  have lo: "32 * m \<le> days_before_month y m + dd - 1 + 50"
    using month_cases [OF assms(1,2)] assms(3)
    by (elim disjE) (simp_all add: days_before_month_def)
  have hi: "days_before_month y m + dd - 1 + 50 < 32 * (m + 2)"
    using month_cases [OF assms(1,2)] assms(4)
    by (elim disjE) (simp_all add: days_before_month_def days_in_month_def split: if_splits)
  have hi12: "days_before_month y m + dd - 1 + 50 < 32 * (m + 1)" if "m = 12"
    using assms(4) that by (simp add: days_before_month_def days_in_month_def split: if_splits)
  have "m \<le> e"
    unfolding e_def using lo by (intro div_ge) simp_all
  moreover have "e < m + 2"
    unfolding e_def using hi by (intro div_lt) simp_all
  moreover have "e < m + 1" if "m = 12"
    unfolding e_def using hi12 [OF that] by (intro div_lt) simp_all
  ultimately show ?thesis
    unfolding e_def using assms(2) by linarith
qed

lemma month_of_toordinal:
  assumes "1 \<le> m" "m \<le> 12" "1 \<le> dd" "dd \<le> days_in_month y m"
  shows "month_of_yday y (days_before_month y m + dd - 1) = m"
proof -
  have e: "(days_before_month y m + dd - 1 + 50) div 32 = m
    \<or> ((days_before_month y m + dd - 1 + 50) div 32 = m + 1 \<and> m < 12)"
    using month_estimate [OF assms] .
  then show ?thesis
  proof
    assume "(days_before_month y m + dd - 1 + 50) div 32 = m"
    then show ?thesis
      using assms(3) by (simp add: month_of_yday_def Let_def)
  next
    assume a: "(days_before_month y m + dd - 1 + 50) div 32 = m + 1 \<and> m < 12"
    then have "days_before_month y (m + 1) = days_before_month y m + days_in_month y m"
      using days_before_month_next [OF assms(1), of y] by simp
    then show ?thesis
      using a assms(4) by (simp add: month_of_yday_def Let_def)
  qed
qed

lemma fromordinal_toordinal:
  assumes "calendar_date d"
  shows "fromordinal (toordinal d) = d"
proof -
  have m: "1 \<le> month d" "month d \<le> 12" and dd: "1 \<le> day d"
    "day d \<le> days_in_month (year d) (month d)"
    using assms by (simp_all add: calendar_date_def)
  have yd: "toordinal d - 1 - days_before_year (year d)
      = days_before_month (year d) (month d) + day d - 1"
    by (simp add: toordinal_def)
  show ?thesis
    unfolding fromordinal_def Let_def year_of_toordinal [OF assms] yd
      month_of_toordinal [OF m dd]
    by simp
qed

lemma first_of_next_month_ordinal:
  assumes "calendar_date d"
  shows "calendar_date (first_of_next_month d)"
    and "toordinal (first_of_next_month d)
      = toordinal (d\<lparr>day := days_in_month (year d) (month d)\<rparr>) + 1"
proof -
  have m: "1 \<le> month d" "month d \<le> 12" and y: "1 \<le> year d"
    using assms by (simp_all add: calendar_date_def)
  show "calendar_date (first_of_next_month d)"
    using m y by (simp add: first_of_next_month_def calendar_date_def days_in_month_pos)
  show "toordinal (first_of_next_month d)
      = toordinal (d\<lparr>day := days_in_month (year d) (month d)\<rparr>) + 1"
  proof (cases "month d < 12")
    case True
    then show ?thesis
      using days_before_month_next [OF m(1) True, of "year d"]
      by (simp add: first_of_next_month_def toordinal_def)
  next
    case False
    then have "month d = 12"
      using m(2) by simp
    then show ?thesis
      using days_before_month_last [of "year d"]
      by (simp add: first_of_next_month_def toordinal_def days_before_year_Suc
          days_before_month_first days_in_month_def split: if_splits)
  qed
qed

lemma day_after_ordinal:
  assumes "calendar_date d"
  shows "calendar_date (day_after d)" and "toordinal (day_after d) = toordinal d + 1"
proof -
  have dd: "day d \<le> days_in_month (year d) (month d)"
    using assms by (simp add: calendar_date_def)
  show "calendar_date (day_after d)"
    using assms first_of_next_month_ordinal(1) [OF assms]
    by (simp add: day_after_def calendar_date_def)
  show "toordinal (day_after d) = toordinal d + 1"
  proof (cases "day d < days_in_month (year d) (month d)")
    case True
    then show ?thesis
      by (simp add: day_after_def toordinal_def)
  next
    case False
    then have "d\<lparr>day := days_in_month (year d) (month d)\<rparr> = d"
      using dd by simp
    then show ?thesis
      using False first_of_next_month_ordinal(2) [OF assms] by (simp add: day_after_def)
  qed
qed

lemma days_after_ordinal:
  assumes "calendar_date d"
  shows "calendar_date ((day_after ^^ k) d)
    \<and> toordinal ((day_after ^^ k) d) = toordinal d + int k"
proof (induction k)
  case 0
  show ?case
    using assms by simp
next
  case (Suc k)
  then show ?case
    using day_after_ordinal [of "(day_after ^^ k) d"] by simp
qed

lemma first_day: "calendar_date \<lparr>year = 1, month = 1, day = 1\<rparr>"
  "toordinal \<lparr>year = 1, month = 1, day = 1\<rparr> = 1"
  by (simp_all add: calendar_date_def days_in_month_def toordinal_def days_before_year_def
      days_before_month_def)

lemma toordinal_onto:
  assumes "1 \<le> n"
  shows "\<exists>d. calendar_date d \<and> toordinal d = n"
proof -
  have "calendar_date ((day_after ^^ nat (n - 1)) \<lparr>year = 1, month = 1, day = 1\<rparr>)
      \<and> toordinal ((day_after ^^ nat (n - 1)) \<lparr>year = 1, month = 1, day = 1\<rparr>) = n"
    using days_after_ordinal [OF first_day(1), of "nat (n - 1)"] assms
    by (simp add: first_day(2))
  then show ?thesis
    by blast
qed

lemma toordinal_fromordinal:
  assumes "1 \<le> n"
  shows "calendar_date (fromordinal n)" and "toordinal (fromordinal n) = n"
proof -
  obtain d where d: "calendar_date d" "toordinal d = n"
    using toordinal_onto [OF assms] by blast
  then have "fromordinal n = d"
    using fromordinal_toordinal [of d] by simp
  then show "calendar_date (fromordinal n)" and "toordinal (fromordinal n) = n"
    using d by simp_all
qed

lemma fromordinal_add:
  assumes "calendar_date d"
  shows "fromordinal (toordinal d + int k) = (day_after ^^ k) d"
  using days_after_ordinal [OF assms, of k] fromordinal_toordinal [of "(day_after ^^ k) d"]
  by simp

lemma fromordinal_day_after:
  assumes "calendar_date d"
  shows "fromordinal (toordinal (day_after d) - 1) = d"
  using day_after_ordinal(2) [OF assms] fromordinal_toordinal [OF assms] by simp

lemma days_before_year_10000: "days_before_year 10000 = max_ordinal"
  by (simp add: days_before_year_def max_ordinal_def)

lemma toordinal_in_range:
  assumes "calendar_date d"
  shows "toordinal d \<le> max_ordinal \<longleftrightarrow> year d \<le> 9999"
proof
  assume "year d \<le> 9999"
  then have "days_before_year (year d + 1) \<le> days_before_year 10000"
    by (intro days_before_year_mono) simp
  then show "toordinal d \<le> max_ordinal"
    using toordinal_year_bounds(2) [OF assms] by (simp add: days_before_year_10000)
next
  assume a: "toordinal d \<le> max_ordinal"
  show "year d \<le> 9999"
  proof (rule ccontr)
    assume "\<not> year d \<le> 9999"
    then have "days_before_year 10000 \<le> days_before_year (year d)"
      by (intro days_before_year_mono) simp
    then show False
      using toordinal_year_bounds(1) [OF assms] a by (simp add: days_before_year_10000)
  qed
qed

lemma bind_result_Inr: "bind_result (Inr x) f = f x"
  by (simp add: bind_result_def)

lemma bind_result_Inl: "bind_result (Inl e) f = Inl e"
  by (simp add: bind_result_def)

lemma td_days_days: "td_days (timedelta_days k) = k"
  by (simp add: td_days_def timedelta_days_def us_per_day_def)

lemma date_sub_days:
  "date_sub d (timedelta_days k)
     = (if 0 < toordinal d - k \<and> toordinal d - k \<le> max_ordinal
        then Inr (fromordinal (toordinal d - k)) else Inl OverflowError)"
  by (simp add: date_sub_def date_add_def td_days_days Let_def)

lemma time_us_midnight: "time_us midnight = 0"
  by (simp add: time_us_def midnight_def)

lemma time_us_last: "time_us last_microsecond = us_per_day - 1"
  by (simp add: time_us_def last_microsecond_def us_per_day_def)

lemma time_of_us_0: "time_of_us 0 = midnight"
  by (simp add: time_of_us_def midnight_def)

lemma time_of_us_last: "time_of_us (us_per_day - 1) = last_microsecond"
  by (simp add: time_of_us_def last_microsecond_def us_per_day_def)

lemma us_per_day_pos: "0 < us_per_day"
  by (simp add: us_per_day_def)

lemma datetime_add_days:
  "datetime_add \<lparr>date_of = d, time_of = midnight\<rparr> (timedelta_days k)
     = (if 0 < toordinal d + k \<and> toordinal d + k \<le> max_ordinal
        then Inr \<lparr>date_of = fromordinal (toordinal d + k), time_of = midnight\<rparr>
        else Inl OverflowError)"
proof -
  have delta: "toordinal d * us_per_day + time_us midnight + timedelta_days k
      = us_per_day * (toordinal d + k) + 0"
    by (simp add: time_us_midnight timedelta_days_def algebra_simps)
  have "(toordinal d * us_per_day + time_us midnight + timedelta_days k) div us_per_day
      = toordinal d + k"
    using us_per_day_pos by (intro int_div_pos_eq [OF delta]) simp_all
  moreover have "(toordinal d * us_per_day + time_us midnight + timedelta_days k) mod us_per_day
      = 0"
    using us_per_day_pos by (intro int_mod_pos_eq [OF delta]) simp_all
  ultimately show ?thesis
    by (simp add: datetime_add_def Let_def time_of_us_0)
qed

lemma datetime_sub_microsecond:
  "datetime_sub \<lparr>date_of = d, time_of = midnight\<rparr> (timedelta_microseconds 1)
     = (if 0 < toordinal d - 1 \<and> toordinal d - 1 \<le> max_ordinal
        then Inr \<lparr>date_of = fromordinal (toordinal d - 1), time_of = last_microsecond\<rparr>
        else Inl OverflowError)"
proof -
  have delta: "toordinal d * us_per_day + time_us midnight + - timedelta_microseconds 1
      = us_per_day * (toordinal d - 1) + (us_per_day - 1)"
    by (simp add: time_us_midnight timedelta_microseconds_def algebra_simps)
  have "(toordinal d * us_per_day + time_us midnight + - timedelta_microseconds 1)
      div us_per_day = toordinal d - 1"
    using us_per_day_pos by (intro int_div_pos_eq [OF delta]) simp_all
  moreover have "(toordinal d * us_per_day + time_us midnight + - timedelta_microseconds 1)
      mod us_per_day = us_per_day - 1"
    using us_per_day_pos by (intro int_mod_pos_eq [OF delta]) simp_all
  ultimately show ?thesis
    by (simp add: datetime_sub_def datetime_add_def Let_def time_of_us_last)
qed

lemma datetime_add_microsecond:
  "datetime_add \<lparr>date_of = d, time_of = last_microsecond\<rparr> (timedelta_microseconds 1)
     = (if 0 < toordinal d + 1 \<and> toordinal d + 1 \<le> max_ordinal
        then Inr \<lparr>date_of = fromordinal (toordinal d + 1), time_of = midnight\<rparr>
        else Inl OverflowError)"
proof -
  have delta: "toordinal d * us_per_day + time_us last_microsecond + timedelta_microseconds 1
      = us_per_day * (toordinal d + 1) + 0"
    by (simp add: time_us_last timedelta_microseconds_def algebra_simps)
  have "(toordinal d * us_per_day + time_us last_microsecond + timedelta_microseconds 1)
      div us_per_day = toordinal d + 1"
    using us_per_day_pos by (intro int_div_pos_eq [OF delta]) simp_all
  moreover have "(toordinal d * us_per_day + time_us last_microsecond
      + timedelta_microseconds 1) mod us_per_day = 0"
    using us_per_day_pos by (intro int_mod_pos_eq [OF delta]) simp_all
  ultimately show ?thesis
    by (simp add: datetime_add_def Let_def time_of_us_0)
qed

lemma end_of_bucket:
  assumes l: "calendar_date l" and k: "toordinal d + k = toordinal l + 1"
  shows "bind_result (datetime_add \<lparr>date_of = d, time_of = midnight\<rparr> (timedelta_days k))
           (\<lambda>e. datetime_sub e (timedelta_microseconds 1))
     = (if year (day_after l) \<le> 9999
        then Inr \<lparr>date_of = l, time_of = last_microsecond\<rparr>
        else Inl OverflowError)"
proof -
  note n = day_after_ordinal [OF l]
  have pos: "1 \<le> toordinal l"
    using toordinal_pos [OF l] .
  have range: "toordinal l + 1 \<le> max_ordinal \<longleftrightarrow> year (day_after l) \<le> 9999"
    using toordinal_in_range [OF n(1)] n(2) by simp
  have next_day: "fromordinal (toordinal l + 1) = day_after l"
    using fromordinal_toordinal [OF n(1)] n(2) by simp
  show ?thesis
  proof (cases "year (day_after l) \<le> 9999")
    case True
    then have le: "toordinal l + 1 \<le> max_ordinal"
      using range by simp
    have "datetime_add \<lparr>date_of = d, time_of = midnight\<rparr> (timedelta_days k)
        = Inr \<lparr>date_of = day_after l, time_of = midnight\<rparr>"
      using pos le by (simp add: datetime_add_days k next_day)
    moreover have "datetime_sub \<lparr>date_of = day_after l, time_of = midnight\<rparr>
          (timedelta_microseconds 1)
        = Inr \<lparr>date_of = l, time_of = last_microsecond\<rparr>"
      using pos le by (simp add: datetime_sub_microsecond n(2) fromordinal_toordinal [OF l])
    ultimately show ?thesis
      using True by (simp add: bind_result_Inr)
  next
    case False
    then have "\<not> toordinal l + 1 \<le> max_ordinal"
      using range by simp
    then have "datetime_add \<lparr>date_of = d, time_of = midnight\<rparr> (timedelta_days k)
        = Inl OverflowError"
      by (simp add: datetime_add_days k)
    then show ?thesis
      using False by (simp add: bind_result_Inl)
  qed
qed

lemma one_microsecond_before:
  assumes l: "calendar_date l" and y: "year (day_after l) \<le> 9999"
  shows "datetime_add \<lparr>date_of = l, time_of = last_microsecond\<rparr> (timedelta_microseconds 1)
     = Inr \<lparr>date_of = day_after l, time_of = midnight\<rparr>"
proof -
  note n = day_after_ordinal [OF l]
  have "toordinal l + 1 \<le> max_ordinal"
    using toordinal_in_range [OF n(1)] n(2) y by simp
  moreover have "fromordinal (toordinal l + 1) = day_after l"
    using fromordinal_toordinal [OF n(1)] n(2) by simp
  ultimately show ?thesis
    using toordinal_pos [OF l] by (simp add: datetime_add_microsecond)
qed

lemma year_day_after: "calendar_date l \<Longrightarrow> year (day_after l) \<le> 9999 \<Longrightarrow> year l \<le> 9999"
proof -
  assume l: "calendar_date l" and y: "year (day_after l) \<le> 9999"
  note n = day_after_ordinal [OF l]
  have "toordinal (day_after l) \<le> max_ordinal"
    using toordinal_in_range [OF n(1)] y by simp
  then have "toordinal l \<le> max_ordinal"
    using n(2) by simp
  then show ?thesis
    using toordinal_in_range [OF l] by simp
qed

lemma start_daily:
  "get_start_date_of_cycle DAILY dt = Inr \<lparr>date_of = date_of dt, time_of = midnight\<rparr>"
  by (simp add: get_start_date_of_cycle_def bind_result_Inr)

lemma start_monthly:
  assumes "valid_date (date_of dt)"
  shows "get_start_date_of_cycle MONTHLY dt
     = Inr \<lparr>date_of = \<lparr>year = year (date_of dt), month = month (date_of dt), day = 1\<rparr>,
            time_of = midnight\<rparr>"
  using assms days_in_month_pos [of "year (date_of dt)" "month (date_of dt)"]
  by (simp add: get_start_date_of_cycle_def bind_result_Inr new_date_def valid_date_def)

lemma start_yearly:
  assumes "valid_date (date_of dt)"
  shows "get_start_date_of_cycle YEARLY dt
     = Inr \<lparr>date_of = \<lparr>year = year (date_of dt), month = 1, day = 1\<rparr>, time_of = midnight\<rparr>"
  using assms
  by (simp add: get_start_date_of_cycle_def bind_result_Inr new_date_def valid_date_def
      days_in_month_def)

lemma weekday_range: "0 \<le> weekday d \<and> weekday d < 7"
  by (simp add: weekday_def)

lemma start_weekly:
  assumes "valid_date (date_of dt)"
  shows "\<exists>m. get_start_date_of_cycle WEEKLY dt = Inr \<lparr>date_of = m, time_of = midnight\<rparr>
    \<and> valid_date m \<and> weekday m = 0
    \<and> (day_after ^^ nat (weekday (date_of dt))) m = date_of dt"
proof -
  define d where "d = date_of dt"
  define w where "w = weekday d"
  define m where "m = fromordinal (toordinal d - w)"
  have cal: "calendar_date d" and y: "year d \<le> 9999"
    using assms by (simp_all add: d_def valid_date_calendar)
  have n: "1 \<le> toordinal d" "toordinal d \<le> max_ordinal"
    using toordinal_pos [OF cal] toordinal_in_range [OF cal] y by simp_all
  have w: "0 \<le> w" "w < 7"
    using weekday_range [of d] by (simp_all add: w_def)
  have w_eq: "w = (toordinal d + 6) mod 7"
    by (simp add: w_def weekday_def)
  have pos: "1 \<le> toordinal d - w"
    unfolding w_eq using n(1) by presburger
  have monday: "(toordinal d - w + 6) mod 7 = 0"
    unfolding w_eq by presburger
  have le: "toordinal d - w \<le> max_ordinal"
    using n(2) w(1) by simp
  note fm = toordinal_fromordinal [OF pos, folded m_def]
  have "get_start_date_of_cycle WEEKLY dt = Inr \<lparr>date_of = m, time_of = midnight\<rparr>"
    using pos le
    by (simp add: get_start_date_of_cycle_def bind_result_Inr date_sub_days d_def [symmetric]
        w_def [symmetric] m_def)
  moreover have "valid_date m"
    using fm toordinal_in_range [OF fm(1)] le by (simp add: valid_date_calendar)
  moreover have "weekday m = 0"
    using monday by (simp add: weekday_def fm(2))
  moreover have "(day_after ^^ nat w) m = d"
    using fromordinal_add [OF fm(1), of "nat w"] w(1) fromordinal_toordinal [OF cal]
    by (simp add: fm(2))
  ultimately show ?thesis
    unfolding w_def d_def by blast
qed

lemma end_daily:
  assumes "calendar_date d"
  shows "get_end_date_of_cycle DAILY \<lparr>date_of = d, time_of = midnight\<rparr>
     = (if year (day_after d) \<le> 9999
        then Inr \<lparr>date_of = d, time_of = last_microsecond\<rparr> else Inl OverflowError)"
proof -
  have "get_end_date_of_cycle DAILY \<lparr>date_of = d, time_of = midnight\<rparr>
      = bind_result (datetime_add \<lparr>date_of = d, time_of = midnight\<rparr> (timedelta_days 1))
          (\<lambda>e. datetime_sub e (timedelta_microseconds 1))"
    by (simp add: get_end_date_of_cycle_def bind_result_Inr)
  then show ?thesis
    using end_of_bucket [OF assms, of d 1] by simp
qed

lemma end_weekly:
  assumes "calendar_date d" and "weekday d = 0"
  shows "get_end_date_of_cycle WEEKLY \<lparr>date_of = d, time_of = midnight\<rparr>
     = (if year ((day_after ^^ 7) d) \<le> 9999
        then Inr \<lparr>date_of = (day_after ^^ 6) d, time_of = last_microsecond\<rparr>
        else Inl OverflowError)"
proof -
  have run: "get_end_date_of_cycle WEEKLY \<lparr>date_of = d, time_of = midnight\<rparr>
      = bind_result (datetime_add \<lparr>date_of = d, time_of = midnight\<rparr> (timedelta_days 7))
          (\<lambda>e. datetime_sub e (timedelta_microseconds 1))"
    using assms(2) by (simp add: get_end_date_of_cycle_def bind_result_Inr)
  note l = days_after_ordinal [OF assms(1), of 6]
  have "(day_after ^^ 7) d = day_after ((day_after ^^ 6) d)"
    by (simp add: numeral_eq_Suc)
  then show ?thesis
    using end_of_bucket [OF l [THEN conjunct1], of d 7] l run by simp
qed

lemma end_monthly:
  assumes "calendar_date d"
  shows "get_end_date_of_cycle MONTHLY \<lparr>date_of = d, time_of = midnight\<rparr>
     = (if year (first_of_next_month d) \<le> 9999 \<and> year d \<le> 9999
        then Inr \<lparr>date_of = \<lparr>year = year d, month = month d,
                                day = days_in_month (year d) (month d)\<rparr>,
                  time_of = last_microsecond\<rparr>
        else if year d \<le> 9999 then Inl OverflowError else Inl ValueError)"
proof -
  define l where "l = \<lparr>year = year d, month = month d, day = days_in_month (year d) (month d)\<rparr>"
  have cl: "calendar_date l"
    using assms days_in_month_pos [of "year d" "month d"] by (simp add: calendar_date_def l_def)
  have next_l: "day_after l = first_of_next_month d"
    by (simp add: day_after_def l_def first_of_next_month_def)
  show ?thesis
  proof (cases "year d \<le> 9999")
    case True
    have "get_end_date_of_cycle MONTHLY \<lparr>date_of = d, time_of = midnight\<rparr>
        = bind_result (datetime_add \<lparr>date_of = l, time_of = midnight\<rparr> (timedelta_days 1))
            (\<lambda>e. datetime_sub e (timedelta_microseconds 1))"
      using True assms days_in_month_pos [of "year d" "month d"]
      by (simp add: get_end_date_of_cycle_def bind_result_Inr datetime_replace_def new_date_def
          calendar_date_def l_def Let_def)
    then show ?thesis
      using end_of_bucket [OF cl, of l 1] True by (simp add: next_l) (simp add: l_def)
  next
    case False
    then show ?thesis
      by (simp add: get_end_date_of_cycle_def bind_result_Inr bind_result_Inl
          datetime_replace_def new_date_def Let_def)
  qed
qed

lemma end_yearly:
  assumes "1 \<le> year d"
  shows "get_end_date_of_cycle YEARLY \<lparr>date_of = d, time_of = midnight\<rparr>
     = (if year d + 1 \<le> 9999
        then Inr \<lparr>date_of = \<lparr>year = year d, month = 12, day = 31\<rparr>,
                  time_of = last_microsecond\<rparr>
        else if year d \<le> 9999 then Inl OverflowError else Inl ValueError)"
proof -
  define l where "l = \<lparr>year = year d, month = 12, day = 31\<rparr>"
  have cl: "calendar_date l"
    using assms by (simp add: calendar_date_def l_def days_in_month_def)
  have next_l: "day_after l = \<lparr>year = year d + 1, month = 1, day = 1\<rparr>"
    by (simp add: day_after_def l_def first_of_next_month_def days_in_month_def)
  show ?thesis
  proof (cases "year d \<le> 9999")
    case True
    have "get_end_date_of_cycle YEARLY \<lparr>date_of = d, time_of = midnight\<rparr>
        = bind_result (datetime_add \<lparr>date_of = l, time_of = midnight\<rparr> (timedelta_days 1))
            (\<lambda>e. datetime_sub e (timedelta_microseconds 1))"
      using True assms
      by (simp add: get_end_date_of_cycle_def bind_result_Inr datetime_replace_def new_date_def
          days_in_month_def l_def)
    then show ?thesis
      using end_of_bucket [OF cl, of l 1] True by (simp add: next_l) (simp add: l_def)
  next
    case False
    then show ?thesis
      by (simp add: get_end_date_of_cycle_def bind_result_Inr bind_result_Inl
          datetime_replace_def new_date_def)
  qed
qed

lemma bucket_end:
  assumes l: "calendar_date l" and nxt: "day_after l = next_bucket_start f ds"
    and run: "get_end_date_of_cycle f \<lparr>date_of = ds, time_of = midnight\<rparr>
      = (if year (day_after l) \<le> 9999
         then Inr \<lparr>date_of = l, time_of = last_microsecond\<rparr> else Inl OverflowError)"
    and sunday: "f = WEEKLY \<longrightarrow> weekday l = 6"
  shows "if year (next_bucket_start f ds) \<le> 9999
     then \<exists>e. get_end_date_of_cycle f \<lparr>date_of = ds, time_of = midnight\<rparr> = Inr e
            \<and> time_of e = last_microsecond \<and> valid_date (date_of e)
            \<and> day_after (date_of e) = next_bucket_start f ds
            \<and> datetime_add e (timedelta_microseconds 1)
                = Inr \<lparr>date_of = next_bucket_start f ds, time_of = midnight\<rparr>
            \<and> (f = WEEKLY \<longrightarrow> weekday (date_of e) = 6)
     else get_end_date_of_cycle f \<lparr>date_of = ds, time_of = midnight\<rparr> = Inl OverflowError"
proof (cases "year (next_bucket_start f ds) \<le> 9999")
  case False
  then show ?thesis
    using run nxt by simp
next
  case True
  then have y: "year (day_after l) \<le> 9999"
    using nxt by simp
  have "get_end_date_of_cycle f \<lparr>date_of = ds, time_of = midnight\<rparr>
      = Inr \<lparr>date_of = l, time_of = last_microsecond\<rparr>"
    using run y by simp
  moreover have "valid_date l"
    using l year_day_after [OF l y] by (simp add: valid_date_calendar)
  moreover have "datetime_add \<lparr>date_of = l, time_of = last_microsecond\<rparr>
        (timedelta_microseconds 1)
      = Inr \<lparr>date_of = next_bucket_start f ds, time_of = midnight\<rparr>"
    using one_microsecond_before [OF l y] nxt by simp
  ultimately show ?thesis
    using True nxt sunday by simp
qed

lemma sunday_after_monday:
  assumes "calendar_date m" and "weekday m = 0"
  shows "weekday ((day_after ^^ 6) m) = 6"
proof -
  have "toordinal ((day_after ^^ 6) m) = toordinal m + 6"
    using days_after_ordinal [OF assms(1), of 6] by simp
  moreover have "(toordinal m + 6) mod 7 = 0"
    using assms(2) by (simp add: weekday_def)
  ultimately show ?thesis
    unfolding weekday_def by presburger
qed

text \<open>
  Claim C8. For a valid instant, the bucket start is the instant's date at time zero
  (DAILY), the Monday from which the instant's date is reached in as many days as its
  weekday says, at time zero (WEEKLY), the first day of the instant's month at time zero
  (MONTHLY), and January 1 of the instant's year at time zero (YEARLY). Whenever the next
  bucket's start (the next day, the day a week later, the first of the next month, January
  1 of the next year) is a date of a year up to 9999, the bucket end of that start is
  23:59:59.999999 on the day before the next bucket's start, one microsecond before it;
  for a week it falls on a Sunday. Otherwise the end computation raises
  \<^verbatim>\<open>OverflowError\<close>.
\<close>

theorem bucket_start_and_end:
  assumes "valid_datetime dt"
  shows "\<exists>s. get_start_date_of_cycle f dt = Inr s
    \<and> time_of s = midnight \<and> valid_date (date_of s)
    \<and> (f = DAILY \<longrightarrow> date_of s = date_of dt)
    \<and> (f = WEEKLY \<longrightarrow> weekday (date_of s) = 0
          \<and> (day_after ^^ nat (weekday (date_of dt))) (date_of s) = date_of dt)
    \<and> (f = MONTHLY \<longrightarrow>
          date_of s = \<lparr>year = year (date_of dt), month = month (date_of dt), day = 1\<rparr>)
    \<and> (f = YEARLY \<longrightarrow> date_of s = \<lparr>year = year (date_of dt), month = 1, day = 1\<rparr>)
    \<and> (if year (next_bucket_start f (date_of s)) \<le> 9999
        then \<exists>e. get_end_date_of_cycle f s = Inr e
               \<and> time_of e = last_microsecond \<and> valid_date (date_of e)
               \<and> day_after (date_of e) = next_bucket_start f (date_of s)
               \<and> datetime_add e (timedelta_microseconds 1)
                   = Inr \<lparr>date_of = next_bucket_start f (date_of s), time_of = midnight\<rparr>
               \<and> (f = WEEKLY \<longrightarrow> weekday (date_of e) = 6)
        else get_end_date_of_cycle f s = Inl OverflowError)"
proof -
  define d where "d = date_of dt"
  have vd: "valid_date d"
    using assms by (simp add: valid_datetime_def d_def)
  then have cal: "calendar_date d" and y: "year d \<le> 9999"
    by (simp_all add: valid_date_calendar)
  show ?thesis
  proof (cases f)
    case DAILY
    have "day_after d = next_bucket_start f d"
      by (simp add: next_bucket_start_def DAILY)
    then have "if year (next_bucket_start f d) \<le> 9999
       then \<exists>e. get_end_date_of_cycle f \<lparr>date_of = d, time_of = midnight\<rparr> = Inr e
              \<and> time_of e = last_microsecond \<and> valid_date (date_of e)
              \<and> day_after (date_of e) = next_bucket_start f d
              \<and> datetime_add e (timedelta_microseconds 1)
                  = Inr \<lparr>date_of = next_bucket_start f d, time_of = midnight\<rparr>
              \<and> (f = WEEKLY \<longrightarrow> weekday (date_of e) = 6)
       else get_end_date_of_cycle f \<lparr>date_of = d, time_of = midnight\<rparr> = Inl OverflowError"
      using end_daily [OF cal] DAILY by (intro bucket_end [OF cal]) simp_all
    then show ?thesis
      using start_daily [of dt] vd DAILY
      by (intro exI [of _ "\<lparr>date_of = d, time_of = midnight\<rparr>"]) (simp add: d_def split: if_splits)
  next
    case WEEKLY
    obtain m where m: "get_start_date_of_cycle WEEKLY dt = Inr \<lparr>date_of = m, time_of = midnight\<rparr>"
      "valid_date m" "weekday m = 0" "(day_after ^^ nat (weekday d)) m = d"
      using start_weekly [of dt] vd unfolding d_def by blast
    have cm: "calendar_date m"
      using m(2) by (simp add: valid_date_calendar)
    note l = days_after_ordinal [OF cm, of 6, THEN conjunct1]
    have nxt: "day_after ((day_after ^^ 6) m) = next_bucket_start f m"
      by (simp add: next_bucket_start_def WEEKLY numeral_eq_Suc)
    have "if year (next_bucket_start f m) \<le> 9999
       then \<exists>e. get_end_date_of_cycle f \<lparr>date_of = m, time_of = midnight\<rparr> = Inr e
              \<and> time_of e = last_microsecond \<and> valid_date (date_of e)
              \<and> day_after (date_of e) = next_bucket_start f m
              \<and> datetime_add e (timedelta_microseconds 1)
                  = Inr \<lparr>date_of = next_bucket_start f m, time_of = midnight\<rparr>
              \<and> (f = WEEKLY \<longrightarrow> weekday (date_of e) = 6)
       else get_end_date_of_cycle f \<lparr>date_of = m, time_of = midnight\<rparr> = Inl OverflowError"
    proof (rule bucket_end [OF l nxt])
      show "get_end_date_of_cycle f \<lparr>date_of = m, time_of = midnight\<rparr>
          = (if year (day_after ((day_after ^^ 6) m)) \<le> 9999
             then Inr \<lparr>date_of = (day_after ^^ 6) m, time_of = last_microsecond\<rparr>
             else Inl OverflowError)"
        using end_weekly [OF cm m(3)] by (simp add: WEEKLY numeral_eq_Suc)
      show "f = WEEKLY \<longrightarrow> weekday ((day_after ^^ 6) m) = 6"
        using sunday_after_monday [OF cm m(3)] by simp
    qed
    then show ?thesis
      using m WEEKLY
      by (intro exI [of _ "\<lparr>date_of = m, time_of = midnight\<rparr>"]) (simp add: d_def split: if_splits)
  next
    case MONTHLY
    define ds where "ds = \<lparr>year = year d, month = month d, day = 1\<rparr>"
    define l where "l = \<lparr>year = year d, month = month d, day = days_in_month (year d) (month d)\<rparr>"
    have vs: "valid_date ds"
      using vd days_in_month_pos [of "year d" "month d"] by (simp add: valid_date_def ds_def)
    then have cs: "calendar_date ds"
      by (simp add: valid_date_calendar)
    have cl: "calendar_date l"
      using cal days_in_month_pos [of "year d" "month d"] by (simp add: calendar_date_def l_def)
    have nxt: "day_after l = next_bucket_start f ds"
      by (simp add: next_bucket_start_def MONTHLY day_after_def l_def ds_def
          first_of_next_month_def)
    have "if year (next_bucket_start f ds) \<le> 9999
       then \<exists>e. get_end_date_of_cycle f \<lparr>date_of = ds, time_of = midnight\<rparr> = Inr e
              \<and> time_of e = last_microsecond \<and> valid_date (date_of e)
              \<and> day_after (date_of e) = next_bucket_start f ds
              \<and> datetime_add e (timedelta_microseconds 1)
                  = Inr \<lparr>date_of = next_bucket_start f ds, time_of = midnight\<rparr>
              \<and> (f = WEEKLY \<longrightarrow> weekday (date_of e) = 6)
       else get_end_date_of_cycle f \<lparr>date_of = ds, time_of = midnight\<rparr> = Inl OverflowError"
    proof (rule bucket_end [OF cl nxt])
      show "get_end_date_of_cycle f \<lparr>date_of = ds, time_of = midnight\<rparr>
          = (if year (day_after l) \<le> 9999
             then Inr \<lparr>date_of = l, time_of = last_microsecond\<rparr> else Inl OverflowError)"
        using end_monthly [OF cs] y
        by (simp add: MONTHLY nxt next_bucket_start_def) (simp add: ds_def l_def)
      show "f = WEEKLY \<longrightarrow> weekday l = 6"
        by (simp add: MONTHLY)
    qed
    then show ?thesis
      using start_monthly [of dt] vd vs MONTHLY
      by (intro exI [of _ "\<lparr>date_of = ds, time_of = midnight\<rparr>"]) (simp add: d_def ds_def split: if_splits)
  next
    case YEARLY
    define ds where "ds = \<lparr>year = year d, month = 1, day = 1\<rparr>"
    define l where "l = \<lparr>year = year d, month = 12, day = 31\<rparr>"
    have vs: "valid_date ds"
      using vd by (simp add: valid_date_def ds_def days_in_month_def)
    have cl: "calendar_date l"
      using cal by (simp add: calendar_date_def l_def days_in_month_def)
    have nxt: "day_after l = next_bucket_start f ds"
      by (simp add: next_bucket_start_def YEARLY day_after_def l_def ds_def
          first_of_next_month_def days_in_month_def)
    have "if year (next_bucket_start f ds) \<le> 9999
       then \<exists>e. get_end_date_of_cycle f \<lparr>date_of = ds, time_of = midnight\<rparr> = Inr e
              \<and> time_of e = last_microsecond \<and> valid_date (date_of e)
              \<and> day_after (date_of e) = next_bucket_start f ds
              \<and> datetime_add e (timedelta_microseconds 1)
                  = Inr \<lparr>date_of = next_bucket_start f ds, time_of = midnight\<rparr>
              \<and> (f = WEEKLY \<longrightarrow> weekday (date_of e) = 6)
       else get_end_date_of_cycle f \<lparr>date_of = ds, time_of = midnight\<rparr> = Inl OverflowError"
    proof (rule bucket_end [OF cl nxt])
      show "get_end_date_of_cycle f \<lparr>date_of = ds, time_of = midnight\<rparr>
          = (if year (day_after l) \<le> 9999
             then Inr \<lparr>date_of = l, time_of = last_microsecond\<rparr> else Inl OverflowError)"
        using end_yearly [of ds] cal y
        by (simp add: YEARLY nxt next_bucket_start_def calendar_date_def)
          (simp add: ds_def l_def)
      show "f = WEEKLY \<longrightarrow> weekday l = 6"
        by (simp add: YEARLY)
    qed
    then show ?thesis
      using start_yearly [of dt] vd vs YEARLY
      by (intro exI [of _ "\<lparr>date_of = ds, time_of = midnight\<rparr>"]) (simp add: d_def ds_def split: if_splits)
  qed
qed

theorem bucket_start_and_end_witness:
  "valid_datetime wednesday_noon
   \<and> weekday (date_of wednesday_noon) = 2
   \<and> get_start_date_of_cycle WEEKLY wednesday_noon = Inr (at_midnight 2022 3 7)
   \<and> weekday \<lparr>year = 2022, month = 3, day = 7\<rparr> = 0
   \<and> (day_after ^^ 2) \<lparr>year = 2022, month = 3, day = 7\<rparr> = date_of wednesday_noon
   \<and> year (next_bucket_start WEEKLY \<lparr>year = 2022, month = 3, day = 7\<rparr>) \<le> 9999
   \<and> get_end_date_of_cycle WEEKLY (at_midnight 2022 3 7)
       = Inr \<lparr>date_of = \<lparr>year = 2022, month = 3, day = 13\<rparr>, time_of = last_microsecond\<rparr>
   \<and> weekday \<lparr>year = 2022, month = 3, day = 13\<rparr> = 6
   \<and> day_after \<lparr>year = 2022, month = 3, day = 13\<rparr>
       = next_bucket_start WEEKLY \<lparr>year = 2022, month = 3, day = 7\<rparr>
   \<and> datetime_add \<lparr>date_of = \<lparr>year = 2022, month = 3, day = 13\<rparr>,
                       time_of = last_microsecond\<rparr> (timedelta_microseconds 1)
       = Inr \<lparr>date_of = next_bucket_start WEEKLY \<lparr>year = 2022, month = 3, day = 7\<rparr>,
              time_of = midnight\<rparr>"
proof -
  have v: "valid_datetime wednesday_noon"
    by (simp add: valid_datetime_def valid_date_def valid_time_def wednesday_noon_def
        days_in_month_def)
  have wd: "weekday (date_of wednesday_noon) = 2"
    by code_simp
  obtain s where s: "get_start_date_of_cycle WEEKLY wednesday_noon = Inr s"
    and monday: "WEEKLY = WEEKLY \<longrightarrow> weekday (date_of s) = 0
      \<and> (day_after ^^ nat (weekday (date_of wednesday_noon))) (date_of s)
          = date_of wednesday_noon"
    and e: "if year (next_bucket_start WEEKLY (date_of s)) \<le> 9999
      then \<exists>e. get_end_date_of_cycle WEEKLY s = Inr e
             \<and> time_of e = last_microsecond \<and> valid_date (date_of e)
             \<and> day_after (date_of e) = next_bucket_start WEEKLY (date_of s)
             \<and> datetime_add e (timedelta_microseconds 1)
                 = Inr \<lparr>date_of = next_bucket_start WEEKLY (date_of s), time_of = midnight\<rparr>
             \<and> (WEEKLY = WEEKLY \<longrightarrow> weekday (date_of e) = 6)
      else get_end_date_of_cycle WEEKLY s = Inl OverflowError"
    using bucket_start_and_end [OF v, of WEEKLY] by blast
  have s_eq: "s = at_midnight 2022 3 7"
    using s start_of_wednesday by simp
  have ds: "date_of s = \<lparr>year = 2022, month = 3, day = 7\<rparr>"
    by (simp add: s_eq at_midnight_def)
  have yr: "year (next_bucket_start WEEKLY \<lparr>year = 2022, month = 3, day = 7\<rparr>) \<le> 9999"
  proof (rule ccontr)
    assume "\<not> year (next_bucket_start WEEKLY \<lparr>year = 2022, month = 3, day = 7\<rparr>) \<le> 9999"
    then have "get_end_date_of_cycle WEEKLY s = Inl OverflowError"
      using e unfolding ds by simp
    then show False
      using end_of_week_10 by (simp add: s_eq)
  qed
  obtain e' where e': "get_end_date_of_cycle WEEKLY s = Inr e'"
    "day_after (date_of e') = next_bucket_start WEEKLY (date_of s)"
    "datetime_add e' (timedelta_microseconds 1)
       = Inr \<lparr>date_of = next_bucket_start WEEKLY (date_of s), time_of = midnight\<rparr>"
    "weekday (date_of e') = 6"
    using e yr unfolding ds by auto
  have e_eq: "e' = \<lparr>date_of = \<lparr>year = 2022, month = 3, day = 13\<rparr>, time_of = last_microsecond\<rparr>"
    using e'(1) end_of_week_10 by (simp add: s_eq week_10_def)
  have de: "date_of e' = \<lparr>year = 2022, month = 3, day = 13\<rparr>"
    by (simp add: e_eq)
  have "weekday \<lparr>year = 2022, month = 3, day = 7\<rparr> = 0"
    "(day_after ^^ 2) \<lparr>year = 2022, month = 3, day = 7\<rparr> = date_of wednesday_noon"
    using monday wd by (simp_all add: ds)
  moreover have "get_end_date_of_cycle WEEKLY (at_midnight 2022 3 7)
      = Inr \<lparr>date_of = \<lparr>year = 2022, month = 3, day = 13\<rparr>, time_of = last_microsecond\<rparr>"
    using e'(1) by (simp add: s_eq e_eq)
  moreover have "weekday \<lparr>year = 2022, month = 3, day = 13\<rparr> = 6"
    using e'(4) by (simp add: de)
  moreover have "day_after \<lparr>year = 2022, month = 3, day = 13\<rparr>
      = next_bucket_start WEEKLY \<lparr>year = 2022, month = 3, day = 7\<rparr>"
    using e'(2) by (simp add: de ds)
  moreover have "datetime_add \<lparr>date_of = \<lparr>year = 2022, month = 3, day = 13\<rparr>,
        time_of = last_microsecond\<rparr> (timedelta_microseconds 1)
      = Inr \<lparr>date_of = next_bucket_start WEEKLY \<lparr>year = 2022, month = 3, day = 7\<rparr>,
             time_of = midnight\<rparr>"
    using e'(3) by (simp add: e_eq ds)
  ultimately show ?thesis
    using v wd s yr by (simp add: s_eq)
qed

text \<open>
  The claim as written fails for the instants of the last bucket of each frequency: the
  bucket start is computed, and the end computation first steps to the next bucket's
  start, which lies after 9999-12-31, and raises \<^verbatim>\<open>OverflowError\<close>.
\<close>

theorem last_bucket_overflow_counterexample:
  "valid_datetime (at_midnight 9999 12 31)
   \<and> get_start_date_of_cycle DAILY (at_midnight 9999 12 31) = Inr (at_midnight 9999 12 31)
   \<and> get_end_date_of_cycle DAILY (at_midnight 9999 12 31) = Inl OverflowError
   \<and> get_start_date_of_cycle WEEKLY (at_midnight 9999 12 31) = Inr (at_midnight 9999 12 27)
   \<and> get_end_date_of_cycle WEEKLY (at_midnight 9999 12 27) = Inl OverflowError
   \<and> get_start_date_of_cycle MONTHLY (at_midnight 9999 12 31) = Inr (at_midnight 9999 12 1)
   \<and> get_end_date_of_cycle MONTHLY (at_midnight 9999 12 1) = Inl OverflowError
   \<and> get_start_date_of_cycle YEARLY (at_midnight 9999 12 31) = Inr (at_midnight 9999 1 1)
   \<and> get_end_date_of_cycle YEARLY (at_midnight 9999 1 1) = Inl OverflowError"
  by code_simp

end
